theory Spec2Isabelle
  imports Complex_Main "HOL-Library.AList"
begin

section \<open>Data quality validator: data model\<close>

text \<open>
  The development embeds \<^verbatim>\<open>Scripts/data_quality_validator.py\<close>, class
  \<^verbatim>\<open>ComprehensiveDataQualityValidator\<close>.

  A pandas cell is null (\<^verbatim>\<open>NaN\<close>, \<^verbatim>\<open>None\<close>, \<^verbatim>\<open>NaT\<close>), a number, a string, a boolean or
  a timestamp. Floating-point numbers are modelled by exact rationals.
\<close>

datatype cell = NullV | NumV rat | StrV string | BoolV bool | TimeV int

datatype py_error = ZeroDivisionError | KeyError | TypeError

text \<open>
  A Python float that may be \<^verbatim>\<open>nan\<close> or infinite (numpy scalar division by zero gives these
  with a warning instead of raising).
\<close>

datatype pyfloat = Fin rat | NaN | PInf | NInf

text \<open>
  A data frame is stored by column, as pandas does: the length of the index and the
  columns in order, each a name and its values.
\<close>

record dataframe =
  n_rows :: nat
  cols :: "(string \<times> cell list) list"

definition wf_df :: "dataframe \<Rightarrow> bool" where
  "wf_df d \<longleftrightarrow> distinct (map fst (cols d)) \<and> (\<forall>p \<in> set (cols d). length (snd p) = n_rows d)"

definition columns :: "dataframe \<Rightarrow> string list" where
  "columns d = map fst (cols d)"

definition getcol :: "dataframe \<Rightarrow> string \<Rightarrow> cell list option" where
  "getcol d c = map_of (cols d) c"

definition setcol :: "dataframe \<Rightarrow> string \<Rightarrow> cell list \<Rightarrow> dataframe" where
  "setcol d c vs = d\<lparr>cols := AList.update c vs (cols d)\<rparr>"

definition isnull :: "cell \<Rightarrow> bool" where
  "isnull v \<longleftrightarrow> v = NullV"

definition count_true :: "bool list \<Rightarrow> nat" where
  "count_true m = length (filter (\<lambda>b. b) m)"

text \<open>\<^verbatim>\<open>df.iloc[i]\<close>: the values of row \<open>i\<close> in column order.\<close>

definition row_at :: "(string \<times> cell list) list \<Rightarrow> nat \<Rightarrow> cell list" where
  "row_at cs i = map (\<lambda>p. snd p ! i) cs"

definition rows_of :: "dataframe \<Rightarrow> cell list list" where
  "rows_of d = map (row_at (cols d)) [0..<n_rows d]"

subsection \<open>Arithmetic of the host language\<close>

text \<open>Python \<^verbatim>\<open>a / b\<close> on built-in numbers raises on a zero divisor.\<close>

definition py_div :: "rat \<Rightarrow> rat \<Rightarrow> py_error + rat" where
  "py_div a b = (if b = 0 then Inl ZeroDivisionError else Inr (a / b))"

text \<open>numpy scalar division: a zero divisor gives \<^verbatim>\<open>nan\<close> or an infinity.\<close>

definition np_div :: "rat \<Rightarrow> rat \<Rightarrow> pyfloat" where
  "np_div a b = (if b = 0 then (if a = 0 then NaN else if 0 < a then PInf else NInf) else Fin (a / b))"

text \<open>\<^verbatim>\<open>round(x, k)\<close>: to \<open>k\<close> decimals, ties to even.\<close>

definition round_half_even :: "rat \<Rightarrow> int" where
  "round_half_even y =
     (let f = \<lfloor>y\<rfloor>; d = y - of_int f
      in if d < 1 / 2 then f else if 1 / 2 < d then f + 1 else if even f then f else f + 1)"

definition py_round :: "rat \<Rightarrow> nat \<Rightarrow> rat" where
  "py_round x k = of_int (round_half_even (x * 10 ^ k)) / 10 ^ k"

fun round_f :: "pyfloat \<Rightarrow> nat \<Rightarrow> pyfloat" where
  "round_f (Fin x) k = Fin (py_round x k)"
| "round_f NaN k = NaN"
| "round_f PInf k = PInf"
| "round_f NInf k = NInf"

fun mul_f :: "pyfloat \<Rightarrow> rat \<Rightarrow> pyfloat" where
  "mul_f (Fin x) c = Fin (x * c)"
| "mul_f NaN c = NaN"
| "mul_f PInf c = (if c = 0 then NaN else if 0 < c then PInf else NInf)"
| "mul_f NInf c = (if c = 0 then NaN else if 0 < c then NInf else PInf)"

fun add_f :: "pyfloat \<Rightarrow> pyfloat \<Rightarrow> pyfloat" where
  "add_f (Fin x) (Fin y) = Fin (x + y)"
| "add_f NaN _ = NaN"
| "add_f _ NaN = NaN"
| "add_f PInf NInf = NaN"
| "add_f NInf PInf = NaN"
| "add_f PInf _ = PInf"
| "add_f _ PInf = PInf"
| "add_f NInf _ = NInf"
| "add_f _ NInf = NInf"

subsection \<open>Element-wise comparison of a column with a number\<close>

text \<open>
  \<^verbatim>\<open>series < x\<close>, \<^verbatim>\<open>series > x\<close>, \<^verbatim>\<open>series >= x\<close>: a null compares false, a boolean
  compares as 0 or 1, and a string or a timestamp in the column raises \<^verbatim>\<open>TypeError\<close>.
\<close>

datatype cmp_op = Lt | Gt | Ge

fun cmp_rat :: "cmp_op \<Rightarrow> rat \<Rightarrow> rat \<Rightarrow> bool" where
  "cmp_rat Lt a b = (a < b)"
| "cmp_rat Gt a b = (a > b)"
| "cmp_rat Ge a b = (a \<ge> b)"

fun cmp_cell :: "cmp_op \<Rightarrow> rat \<Rightarrow> cell \<Rightarrow> bool" where
  "cmp_cell opr x NullV = False"
| "cmp_cell opr x (NumV a) = cmp_rat opr a x"
| "cmp_cell opr x (BoolV b) = cmp_rat opr (if b then 1 else 0) x"
| "cmp_cell opr x (StrV s) = False"
| "cmp_cell opr x (TimeV t) = False"

fun comparable :: "cell \<Rightarrow> bool" where
  "comparable (StrV s) = False"
| "comparable (TimeV t) = False"
| "comparable _ = True"

definition series_cmp :: "cmp_op \<Rightarrow> cell list \<Rightarrow> rat \<Rightarrow> py_error + bool list" where
  "series_cmp opr vs x =
     (if list_all comparable vs then Inr (map (cmp_cell opr x) vs) else Inl TypeError)"

text \<open>
  The mask \<^verbatim>\<open>(self.df[col] < min_val) | (self.df[col] > max_val)\<close> of
  \<^verbatim>\<open>check_validity\<close>.
\<close>

definition out_of_range_mask :: "cell list \<Rightarrow> rat \<Rightarrow> rat \<Rightarrow> py_error + bool list" where
  "out_of_range_mask vs lo hi =
     (case series_cmp Lt vs lo of
        Inl e \<Rightarrow> Inl e
      | Inr mlo \<Rightarrow>
          (case series_cmp Gt vs hi of
             Inl e \<Rightarrow> Inl e
           | Inr mhi \<Rightarrow> Inr (map (\<lambda>p. fst p \<or> snd p) (zip mlo mhi))))"

section \<open>Configuration, results and recommendations\<close>

record config =
  critical_columns :: "string list"
  numeric_columns :: "string list"
  categorical_columns :: "string list"
  expected_ranges :: "(string \<times> rat \<times> rat) list"
  valid_values :: "(string \<times> cell list) list"

text \<open>\<^verbatim>\<open>_default_config\<close>\<close>

definition default_config :: config where
  "default_config =
     \<lparr>critical_columns = [''date'', ''patient_id'', ''patient_age'', ''patient_waittime''],
      numeric_columns = [''patient_age'', ''patient_waittime'', ''patient_sat_score''],
      categorical_columns = [''patient_gender'', ''patient_race'', ''department_referral''],
      expected_ranges =
        [(''patient_age'', 0, 120), (''patient_waittime'', 0, 300), (''patient_sat_score'', 0, 10)],
      valid_values =
        [(''patient_gender'', [StrV ''M'', StrV ''F'']),
         (''patient_admin_flag'', [StrV ''True'', StrV ''False'', BoolV True, BoolV False]),
         (''Moment'', [StrV ''AM'', StrV ''PM''])]\<rparr>"

datatype severity = HIGH | MEDIUM | LOW

text \<open>
  The texts of a recommendation are f-strings; each is kept as its template (the
  constructor) and the values it interpolates, in the order of the source.
\<close>

datatype issue_text =
    CriticalMissing string nat
  | ExactDuplicates nat
  | IdDateDuplicates nat
  | OutOfRange nat string rat rat
  | InvalidValues nat string
  | DateFormatIssue string
  | FutureDates nat
  | Outliers nat string

datatype advice_text =
    FillMissing string
  | RemoveDuplicates
  | InvestigateSameDate
  | CorrectOutOfRange string
  | StandardizeValues string
  | StandardizeDateFormat
  | CorrectFutureDates
  | ReviewOutliers string rat rat

record recommendation_entry =
  severity :: severity
  category :: string
  issue :: issue_text
  recommendation :: advice_text

record missing_col =
  mc_count :: nat
  mc_percentage :: pyfloat
  is_critical :: bool

record missing_rec =
  records_with_missing :: nat
  mr_percentage :: pyfloat

record completeness_result =
  total_records :: nat
  total_columns :: nat
  missing_by_column :: "(string \<times> missing_col) list"
  missing_by_record :: missing_rec
  completeness_score :: pyfloat

record cnt_pct =
  cp_count :: nat
  cp_percentage :: rat

record duplicate_records =
  exact_duplicates :: cnt_pct
  id_date_duplicates :: cnt_pct

record unique_info =
  unique_values :: nat
  ui_total_records :: nat
  uniqueness_ratio :: rat

record uniqueness_result =
  duplicate_records :: duplicate_records
  unique_constraints :: "(string \<times> unique_info) list"

record range_info =
  expected_range :: "rat \<times> rat"
  rv_violations :: nat
  rv_percentage :: rat

record value_info =
  expected_values :: "cell list"
  vv_violations :: nat
  invalid_values :: "cell list"

text \<open>
  The entry of \<^verbatim>\<open>format_violations\<close>: \<^verbatim>\<open>{'violations': 0, 'status': 'Valid'}\<close> or
  \<^verbatim>\<open>{'violations': 'Unknown', 'status': 'Invalid', 'error': str(e)}\<close>.
\<close>

datatype format_info = FormatValid | FormatInvalid string

record validity_result =
  range_violations :: "(string \<times> range_info) list"
  value_violations :: "(string \<times> value_info) list"
  format_violations :: "(string \<times> format_info) list"

text \<open>
  The three dictionaries of the consistency result hold at most one key each
  (\<^verbatim>\<open>future_dates\<close>, \<^verbatim>\<open>high_sat_high_wait\<close>, \<^verbatim>\<open>pediatric_in_adult_dept\<close>); \<open>None\<close> is the
  empty dictionary.
\<close>

record consistency_result =
  temporal_consistency :: "cnt_pct option"
  logical_consistency :: "cnt_pct option"
  cross_field_consistency :: "nat option"

record outlier_info =
  o_count :: nat
  o_percentage :: rat
  lower_bound :: rat
  upper_bound :: rat
  Q1 :: rat
  Q3 :: rat
  IQR :: rat

record stat_info =
  st_mean :: rat
  st_median :: rat
  st_std :: pyfloat
  st_min :: rat
  st_max :: rat

record accuracy_result =
  outliers :: "(string \<times> outlier_info) list"
  statistical_summary :: "(string \<times> stat_info) list"

record dimension_scores =
  s_completeness :: pyfloat
  s_uniqueness :: pyfloat
  s_validity :: pyfloat
  s_consistency :: pyfloat
  s_accuracy :: pyfloat

record overall_result =
  quality_score :: pyfloat
  dimension_scores :: dimension_scores
  total_recommendations :: nat
  critical_issues :: nat

record validation_results =
  completeness :: "completeness_result option"
  uniqueness :: "uniqueness_result option"
  validity :: "validity_result option"
  consistency :: "consistency_result option"
  accuracy :: "accuracy_result option"
  overall :: "overall_result option"

section \<open>Objects\<close>

text \<open>
  Data frames are objects: the store maps addresses to frames, and a validator holds the
  addresses of \<^verbatim>\<open>self.df\<close> and \<^verbatim>\<open>self.original_df\<close>.
\<close>

record store =
  frames :: "nat \<Rightarrow> dataframe"
  next_addr :: nat

record validator =
  df :: nat
  original_df :: nat
  config :: config
  validation_results :: validation_results
  recommendations :: "recommendation_entry list"

text \<open>
  What the validator takes from its surroundings: the clock read by
  \<^verbatim>\<open>datetime.now()\<close>, the date parser behind \<^verbatim>\<open>pd.to_datetime\<close> (\<open>None\<close> for a value that
  does not parse), the text of the parser's exception, and the sample standard deviation
  (a square root, not a rational).
\<close>

record env =
  now :: int
  parse_date :: "cell \<Rightarrow> int option"
  date_error :: "cell list \<Rightarrow> string"
  series_std :: "rat list \<Rightarrow> pyfloat"

text \<open>
  The outcome of a method: the exception raised, if any, and the state at that point.
\<close>

type_synonym outcome = "py_error option \<times> store \<times> validator"

text \<open>\<^verbatim>\<open>df.copy()\<close> allocates a new frame with the same content.\<close>

definition df_copy :: "store \<Rightarrow> nat \<Rightarrow> store \<times> nat" where
  "df_copy s a =
     (s\<lparr>frames := (frames s)(next_addr s := frames s a), next_addr := Suc (next_addr s)\<rparr>,
      next_addr s)"

definition no_results :: validation_results where
  "no_results =
     \<lparr>completeness = None, uniqueness = None, validity = None, consistency = None,
      accuracy = None, overall = None\<rparr>"

text \<open>\<^verbatim>\<open>__init__\<close>; \<^verbatim>\<open>config or self._default_config()\<close> takes the default for \<^verbatim>\<open>None\<close>.\<close>

definition init :: "store \<Rightarrow> nat \<Rightarrow> config option \<Rightarrow> store \<times> validator" where
  "init s a cfg =
     (let (s1, r1) = df_copy s a;
          (s2, r2) = df_copy s1 a
      in (s2, \<lparr>df = r1, original_df = r2,
               config = (case cfg of None \<Rightarrow> default_config | Some c \<Rightarrow> c),
               validation_results = no_results, recommendations = []\<rparr>))"

section \<open>Completeness\<close>

definition null_count :: "cell list \<Rightarrow> nat" where
  "null_count vs = length (filter isnull vs)"

text \<open>The loop over \<^verbatim>\<open>self.df.columns\<close> of \<^verbatim>\<open>check_completeness\<close>.\<close>

fun missing_by_column_loop ::
  "config \<Rightarrow> nat \<Rightarrow> (string \<times> cell list) list \<Rightarrow>
   (string \<times> missing_col) list \<times> recommendation_entry list \<Rightarrow>
   (string \<times> missing_col) list \<times> recommendation_entry list" where
  "missing_by_column_loop cfg n [] acc = acc"
| "missing_by_column_loop cfg n ((col, vs) # rest) (mbc, recs) =
     (let missing_count = null_count vs;
          missing_pct = mul_f (np_div (of_nat missing_count) (of_nat n)) 100;
          mbc' = AList.update col
                   \<lparr>mc_count = missing_count, mc_percentage = round_f missing_pct 2,
                    is_critical = (col \<in> set (critical_columns cfg))\<rparr> mbc;
          recs' = (if col \<in> set (critical_columns cfg) \<and> 0 < missing_count
                   then recs @ [\<lparr>severity = HIGH, category = ''Completeness'',
                                  issue = CriticalMissing col missing_count,
                                  recommendation = FillMissing col\<rparr>]
                   else recs)
      in missing_by_column_loop cfg n rest (mbc', recs'))"

definition completeness_of ::
  "config \<Rightarrow> dataframe \<Rightarrow> recommendation_entry list \<Rightarrow>
   completeness_result \<times> recommendation_entry list" where
  "completeness_of cfg d recs =
     (let n = n_rows d;
          (mbc, recs') = missing_by_column_loop cfg n (cols d) ([], recs);
          records_with_missing = length (filter (\<lambda>r. \<exists>v \<in> set r. isnull v) (rows_of d));
          total_cells = n * length (cols d);
          missing_cells = sum_list (map (\<lambda>p. null_count (snd p)) (cols d));
          completeness_score =
            mul_f (np_div (of_nat total_cells - of_nat missing_cells) (of_nat total_cells)) 100
      in (\<lparr>total_records = n, total_columns = length (cols d), missing_by_column = mbc,
            missing_by_record =
              \<lparr>records_with_missing = records_with_missing,
               mr_percentage =
                 round_f (mul_f (np_div (of_nat records_with_missing) (of_nat n)) 100) 2\<rparr>,
            completeness_score = round_f completeness_score 2\<rparr>, recs'))"

definition check_completeness :: "store \<Rightarrow> validator \<Rightarrow> outcome" where
  "check_completeness s v =
     (let (res, recs') = completeness_of (config v) (frames s (df v)) (recommendations v)
      in (None, s,
          v\<lparr>recommendations := recs',
            validation_results := (validation_results v)\<lparr>completeness := Some res\<rparr>\<rparr>))"

section \<open>Uniqueness\<close>

text \<open>\<^verbatim>\<open>duplicated(keep=False)\<close> marks every row that occurs more than once.\<close>

definition duplicated :: "cell list list \<Rightarrow> bool list" where
  "duplicated rs = map (\<lambda>r. 1 < count_list rs r) rs"

text \<open>The rows restricted to a subset of columns; a name that is no column raises.\<close>

definition subset_rows :: "dataframe \<Rightarrow> string list \<Rightarrow> py_error + cell list list" where
  "subset_rows d cs =
     (if set cs \<subseteq> set (columns d)
      then Inr (map (row_at (map (\<lambda>c. (c, the (getcol d c))) cs)) [0..<n_rows d])
      else Inl KeyError)"

definition nunique :: "cell list \<Rightarrow> nat" where
  "nunique vs = length (remdups (filter (\<lambda>v. \<not> isnull v) vs))"

text \<open>The loop over the four key columns of \<^verbatim>\<open>check_uniqueness\<close>.\<close>

fun unique_constraints_loop ::
  "dataframe \<Rightarrow> string list \<Rightarrow> (string \<times> unique_info) list \<Rightarrow>
   py_error + (string \<times> unique_info) list" where
  "unique_constraints_loop d [] uc = Inr uc"
| "unique_constraints_loop d (col # rest) uc =
     (case getcol d col of
        None \<Rightarrow> unique_constraints_loop d rest uc
      | Some vs \<Rightarrow>
          (let unique_count = nunique vs; total_count = n_rows d
           in case py_div (of_nat unique_count) (of_nat total_count) of
                Inl e \<Rightarrow> Inl e
              | Inr ratio \<Rightarrow>
                  unique_constraints_loop d rest
                    (AList.update col
                       \<lparr>unique_values = unique_count, ui_total_records = total_count,
                        uniqueness_ratio = py_round ratio 4\<rparr> uc)))"

definition uniqueness_of ::
  "dataframe \<Rightarrow> recommendation_entry list \<Rightarrow>
   (py_error + uniqueness_result) \<times> recommendation_entry list" where
  "uniqueness_of d recs =
     (let n = n_rows d;
          exact = count_true (duplicated (rows_of d))
      in case py_div (of_nat exact) (of_nat n) of
           Inl e \<Rightarrow> (Inl e, recs)
         | Inr q1 \<Rightarrow>
            (let recs1 = (if 0 < exact
                          then recs @ [\<lparr>severity = MEDIUM, category = ''Uniqueness'',
                                         issue = ExactDuplicates exact,
                                         recommendation = RemoveDuplicates\<rparr>]
                          else recs)
             in case subset_rows d [''patient_id'', ''date''] of
                  Inl e \<Rightarrow> (Inl e, recs1)
                | Inr krows \<Rightarrow>
                   (let id_date = count_true (duplicated krows)
                    in case py_div (of_nat id_date) (of_nat n) of
                         Inl e \<Rightarrow> (Inl e, recs1)
                       | Inr q2 \<Rightarrow>
                          (let recs2 = (if 0 < id_date
                                        then recs1 @ [\<lparr>severity = HIGH, category = ''Uniqueness'',
                                                        issue = IdDateDuplicates id_date,
                                                        recommendation = InvestigateSameDate\<rparr>]
                                        else recs1)
                           in case unique_constraints_loop d
                                     [''patient_id'', ''patient_gender'', ''patient_race'',
                                      ''department_referral''] [] of
                                Inl e \<Rightarrow> (Inl e, recs2)
                              | Inr uc \<Rightarrow>
                                  (Inr \<lparr>duplicate_records =
                                          \<lparr>exact_duplicates =
                                             \<lparr>cp_count = exact,
                                              cp_percentage = py_round (q1 * 100) 2\<rparr>,
                                           id_date_duplicates =
                                             \<lparr>cp_count = id_date,
                                              cp_percentage = py_round (q2 * 100) 2\<rparr>\<rparr>,
                                        unique_constraints = uc\<rparr>, recs2)))))"

definition check_uniqueness :: "store \<Rightarrow> validator \<Rightarrow> outcome" where
  "check_uniqueness s v =
     (case uniqueness_of (frames s (df v)) (recommendations v) of
        (Inl e, recs') \<Rightarrow> (Some e, s, v\<lparr>recommendations := recs'\<rparr>)
      | (Inr res, recs') \<Rightarrow>
          (None, s,
           v\<lparr>recommendations := recs',
             validation_results := (validation_results v)\<lparr>uniqueness := Some res\<rparr>\<rparr>))"

section \<open>Validity\<close>

text \<open>The loop over \<^verbatim>\<open>expected_ranges\<close> of \<^verbatim>\<open>check_validity\<close>.\<close>

fun range_loop ::
  "dataframe \<Rightarrow> (string \<times> rat \<times> rat) list \<Rightarrow>
   (string \<times> range_info) list \<times> recommendation_entry list \<Rightarrow>
   (py_error + (string \<times> range_info) list) \<times> recommendation_entry list" where
  "range_loop d [] (rv, recs) = (Inr rv, recs)"
| "range_loop d ((col, min_val, max_val) # rest) (rv, recs) =
     (case getcol d col of
        None \<Rightarrow> range_loop d rest (rv, recs)
      | Some vs \<Rightarrow>
          (case out_of_range_mask vs min_val max_val of
             Inl e \<Rightarrow> (Inl e, recs)
           | Inr m \<Rightarrow>
               (let violations = count_true m
                in case py_div (of_nat violations) (of_nat (n_rows d)) of
                     Inl e \<Rightarrow> (Inl e, recs)
                   | Inr q \<Rightarrow>
                       range_loop d rest
                         (AList.update col
                            \<lparr>expected_range = (min_val, max_val), rv_violations = violations,
                             rv_percentage = py_round (q * 100) 2\<rparr> rv,
                          if 0 < violations
                          then recs @ [\<lparr>severity = MEDIUM, category = ''Validity'',
                                         issue = OutOfRange violations col min_val max_val,
                                         recommendation = CorrectOutOfRange col\<rparr>]
                          else recs))))"

text \<open>
  \<^verbatim>\<open>isin\<close> compares as Python does, where \<^verbatim>\<open>True == 1\<close> and \<^verbatim>\<open>False == 0\<close>.
\<close>

fun num_key :: "cell \<Rightarrow> cell" where
  "num_key (BoolV b) = NumV (if b then 1 else 0)"
| "num_key v = v"

definition isin :: "cell \<Rightarrow> cell list \<Rightarrow> bool" where
  "isin v vals \<longleftrightarrow> (\<exists>w \<in> set vals. num_key v = num_key w)"

text \<open>\<^verbatim>\<open>unique()\<close> keeps the first occurrence of each value, in order.\<close>

definition unique_vals :: "cell list \<Rightarrow> cell list" where
  "unique_vals vs = rev (remdups (rev vs))"

text \<open>The loop over \<^verbatim>\<open>valid_values\<close> of \<^verbatim>\<open>check_validity\<close>.\<close>

fun value_loop ::
  "dataframe \<Rightarrow> (string \<times> cell list) list \<Rightarrow>
   (string \<times> value_info) list \<times> recommendation_entry list \<Rightarrow>
   (string \<times> value_info) list \<times> recommendation_entry list" where
  "value_loop d [] acc = acc"
| "value_loop d ((col, valid) # rest) (vv, recs) =
     (case getcol d col of
        None \<Rightarrow> value_loop d rest (vv, recs)
      | Some vs \<Rightarrow>
          (let invalid = filter (\<lambda>v. \<not> isin v valid \<and> \<not> isnull v) vs
           in value_loop d rest
                (AList.update col
                   \<lparr>expected_values = valid, vv_violations = length invalid,
                    invalid_values = (if 0 < length invalid then unique_vals invalid else [])\<rparr> vv,
                 if 0 < length invalid
                 then recs @ [\<lparr>severity = MEDIUM, category = ''Validity'',
                                issue = InvalidValues (length invalid) col,
                                recommendation = StandardizeValues col\<rparr>]
                 else recs)))"

text \<open>
  The date format check: \<^verbatim>\<open>pd.to_datetime(self.df['date'])\<close> raises when a value does not
  parse, and the exception is caught.
\<close>

definition date_format_of ::
  "env \<Rightarrow> dataframe \<Rightarrow> recommendation_entry list \<Rightarrow>
   (string \<times> format_info) list \<times> recommendation_entry list" where
  "date_format_of ev d recs =
     (case getcol d ''date'' of
        None \<Rightarrow> ([], recs)
      | Some vs \<Rightarrow>
          if \<forall>v \<in> set vs. isnull v \<or> parse_date ev v \<noteq> None
          then ([(''date'', FormatValid)], recs)
          else ([(''date'', FormatInvalid (date_error ev vs))],
                recs @ [\<lparr>severity = HIGH, category = ''Validity'',
                          issue = DateFormatIssue (date_error ev vs),
                          recommendation = StandardizeDateFormat\<rparr>]))"

definition validity_of ::
  "env \<Rightarrow> config \<Rightarrow> dataframe \<Rightarrow> recommendation_entry list \<Rightarrow>
   (py_error + validity_result) \<times> recommendation_entry list" where
  "validity_of ev cfg d recs =
     (case range_loop d (expected_ranges cfg) ([], recs) of
        (Inl e, recs1) \<Rightarrow> (Inl e, recs1)
      | (Inr rv, recs1) \<Rightarrow>
          (let (vv, recs2) = value_loop d (valid_values cfg) ([], recs1);
               (fv, recs3) = date_format_of ev d recs2
           in (Inr \<lparr>range_violations = rv, value_violations = vv, format_violations = fv\<rparr>,
               recs3)))"

definition check_validity :: "env \<Rightarrow> store \<Rightarrow> validator \<Rightarrow> outcome" where
  "check_validity ev s v =
     (case validity_of ev (config v) (frames s (df v)) (recommendations v) of
        (Inl e, recs') \<Rightarrow> (Some e, s, v\<lparr>recommendations := recs'\<rparr>)
      | (Inr res, recs') \<Rightarrow>
          (None, s,
           v\<lparr>recommendations := recs',
             validation_results := (validation_results v)\<lparr>validity := Some res\<rparr>\<rparr>))"

section \<open>Consistency\<close>

text \<open>\<^verbatim>\<open>pd.to_datetime(..., errors='coerce')\<close>: a value that does not parse becomes null.\<close>

definition to_datetime_coerce :: "env \<Rightarrow> cell list \<Rightarrow> cell list" where
  "to_datetime_coerce ev vs =
     map (\<lambda>v. if isnull v then NullV
               else (case parse_date ev v of None \<Rightarrow> NullV | Some t \<Rightarrow> TimeV t)) vs"

text \<open>\<^verbatim>\<open>self.df['date_parsed'] > datetime.now()\<close>\<close>

definition after_now :: "env \<Rightarrow> cell list \<Rightarrow> bool list" where
  "after_now ev vs = map (\<lambda>v. case v of TimeV t \<Rightarrow> now ev < t | _ \<Rightarrow> False) vs"

text \<open>
  The temporal part: it stores the parsed dates in the column \<^verbatim>\<open>date_parsed\<close> of
  \<^verbatim>\<open>self.df\<close>, so the frame is part of the result.
\<close>

definition temporal_of ::
  "env \<Rightarrow> dataframe \<Rightarrow> recommendation_entry list \<Rightarrow>
   (py_error + cnt_pct option) \<times> dataframe \<times> recommendation_entry list" where
  "temporal_of ev d recs =
     (case getcol d ''date'' of
        None \<Rightarrow> (Inr None, d, recs)
      | Some vs \<Rightarrow>
          (let date_parsed = to_datetime_coerce ev vs;
               d1 = setcol d ''date_parsed'' date_parsed;
               future_dates = count_true (after_now ev date_parsed)
           in case py_div (of_nat future_dates) (of_nat (n_rows d1)) of
                Inl e \<Rightarrow> (Inl e, d1, recs)
              | Inr q \<Rightarrow>
                  (Inr (Some \<lparr>cp_count = future_dates, cp_percentage = py_round (q * 100) 2\<rparr>),
                   d1,
                   if 0 < future_dates
                   then recs @ [\<lparr>severity = HIGH, category = ''Consistency'',
                                  issue = FutureDates future_dates,
                                  recommendation = CorrectFutureDates\<rparr>]
                   else recs)))"

text \<open>High satisfaction with a long wait: advisory, no recommendation.\<close>

definition logical_of :: "dataframe \<Rightarrow> py_error + cnt_pct option" where
  "logical_of d =
     (case (getcol d ''patient_sat_score'', getcol d ''patient_waittime'') of
        (Some sat, Some wait) \<Rightarrow>
          (case series_cmp Ge sat 8 of
             Inl e \<Rightarrow> Inl e
           | Inr m1 \<Rightarrow>
               (case series_cmp Ge wait 60 of
                  Inl e \<Rightarrow> Inl e
                | Inr m2 \<Rightarrow>
                    (let suspicious = count_true (map (\<lambda>p. fst p \<and> snd p) (zip m1 m2))
                     in case py_div (of_nat suspicious) (of_nat (n_rows d)) of
                          Inl e \<Rightarrow> Inl e
                        | Inr q \<Rightarrow>
                            Inr (Some \<lparr>cp_count = suspicious,
                                       cp_percentage = py_round (q * 100) 2\<rparr>))))
      | _ \<Rightarrow> Inr None)"

text \<open>Children in departments for adults: advisory, a count only.\<close>

definition cross_field_of :: "dataframe \<Rightarrow> py_error + nat option" where
  "cross_field_of d =
     (case (getcol d ''patient_age'', getcol d ''department_referral'') of
        (Some age, Some dept) \<Rightarrow>
          (case series_cmp Lt age 13 of
             Inl e \<Rightarrow> Inl e
           | Inr m1 \<Rightarrow>
               Inr (Some (count_true
                  (map (\<lambda>p. fst p \<and> snd p)
                     (zip m1 (map (\<lambda>v. isin v [StrV ''Cardiology'', StrV ''Gastroenterology''])
                                dept))))))
      | _ \<Rightarrow> Inr None)"

definition consistency_of ::
  "env \<Rightarrow> dataframe \<Rightarrow> recommendation_entry list \<Rightarrow>
   (py_error + consistency_result) \<times> dataframe \<times> recommendation_entry list" where
  "consistency_of ev d recs =
     (case temporal_of ev d recs of
        (Inl e, d1, recs1) \<Rightarrow> (Inl e, d1, recs1)
      | (Inr t, d1, recs1) \<Rightarrow>
          (case logical_of d1 of
             Inl e \<Rightarrow> (Inl e, d1, recs1)
           | Inr l \<Rightarrow>
               (case cross_field_of d1 of
                  Inl e \<Rightarrow> (Inl e, d1, recs1)
                | Inr c \<Rightarrow>
                    (Inr \<lparr>temporal_consistency = t, logical_consistency = l,
                          cross_field_consistency = c\<rparr>, d1, recs1))))"

definition check_consistency :: "env \<Rightarrow> store \<Rightarrow> validator \<Rightarrow> outcome" where
  "check_consistency ev s v =
     (case consistency_of ev (frames s (df v)) (recommendations v) of
        (r, d1, recs') \<Rightarrow>
          (let s1 = s\<lparr>frames := (frames s)(df v := d1)\<rparr>
           in case r of
                Inl e \<Rightarrow> (Some e, s1, v\<lparr>recommendations := recs'\<rparr>)
              | Inr res \<Rightarrow>
                  (None, s1,
                   v\<lparr>recommendations := recs',
                     validation_results :=
                       (validation_results v)\<lparr>consistency := Some res\<rparr>\<rparr>)))"

section \<open>Accuracy\<close>

text \<open>
  The numbers of a column, nulls dropped; statistics over a column holding anything else
  raise \<^verbatim>\<open>TypeError\<close>.
\<close>

fun num_of :: "cell \<Rightarrow> rat option" where
  "num_of (NumV x) = Some x"
| "num_of _ = None"

definition numeric_values :: "cell list \<Rightarrow> py_error + rat list" where
  "numeric_values vs =
     (let nn = filter (\<lambda>v. \<not> isnull v) vs
      in if list_all (\<lambda>v. num_of v \<noteq> None) nn then Inr (map (\<lambda>v. the (num_of v)) nn)
         else Inl TypeError)"

text \<open>\<^verbatim>\<open>quantile(q)\<close>, linear interpolation between order statistics.\<close>

definition quantile :: "rat list \<Rightarrow> rat \<Rightarrow> rat" where
  "quantile xs q =
     (let srt = sort xs;
          pos = of_nat (length srt - 1) * q;
          i = nat \<lfloor>pos\<rfloor>;
          frac = pos - of_int \<lfloor>pos\<rfloor>
      in if i + 1 < length srt then srt ! i + frac * (srt ! (i + 1) - srt ! i) else srt ! i)"

definition mean :: "rat list \<Rightarrow> rat" where
  "mean xs = sum_list xs / of_nat (length xs)"

text \<open>The loop over \<^verbatim>\<open>numeric_columns\<close> of \<^verbatim>\<open>check_accuracy\<close>.\<close>

fun accuracy_loop ::
  "env \<Rightarrow> dataframe \<Rightarrow> string list \<Rightarrow>
   (string \<times> outlier_info) list \<times> (string \<times> stat_info) list \<times> recommendation_entry list \<Rightarrow>
   (py_error + (string \<times> outlier_info) list \<times> (string \<times> stat_info) list) \<times>
   recommendation_entry list" where
  "accuracy_loop ev d [] (ol, st, recs) = (Inr (ol, st), recs)"
| "accuracy_loop ev d (col # rest) (ol, st, recs) =
     (case getcol d col of
        None \<Rightarrow> accuracy_loop ev d rest (ol, st, recs)
      | Some vs \<Rightarrow>
          if \<not> (\<exists>v \<in> set vs. \<not> isnull v) then accuracy_loop ev d rest (ol, st, recs)
          else
            (case numeric_values vs of
               Inl e \<Rightarrow> (Inl e, recs)
             | Inr xs \<Rightarrow>
                 (let q1 = quantile xs (1 / 4);
                      q3 = quantile xs (3 / 4);
                      iqr = q3 - q1;
                      lower = q1 - (3 / 2) * iqr;
                      upper = q3 + (3 / 2) * iqr
                  in case out_of_range_mask vs lower upper of
                       Inl e \<Rightarrow> (Inl e, recs)
                     | Inr m \<Rightarrow>
                         (let cnt = count_true m
                          in case py_div (of_nat cnt)
                                    (of_nat (length (filter (\<lambda>v. \<not> isnull v) vs))) of
                               Inl e \<Rightarrow> (Inl e, recs)
                             | Inr q \<Rightarrow>
                                 accuracy_loop ev d rest
                                   (AList.update col
                                      \<lparr>o_count = cnt, o_percentage = py_round (q * 100) 2,
                                       lower_bound = py_round lower 2,
                                       upper_bound = py_round upper 2,
                                       Q1 = py_round q1 2, Q3 = py_round q3 2,
                                       IQR = py_round iqr 2\<rparr> ol,
                                    AList.update col
                                      \<lparr>st_mean = py_round (mean xs) 2,
                                       st_median = py_round (quantile xs (1 / 2)) 2,
                                       st_std = round_f (series_std ev xs) 2,
                                       st_min = py_round (Min (set xs)) 2,
                                       st_max = py_round (Max (set xs)) 2\<rparr> st,
                                    if 0 < cnt
                                    then recs @ [\<lparr>severity = LOW, category = ''Accuracy'',
                                                   issue = Outliers cnt col,
                                                   recommendation =
                                                     ReviewOutliers col lower upper\<rparr>]
                                    else recs)))))"

definition accuracy_of ::
  "env \<Rightarrow> config \<Rightarrow> dataframe \<Rightarrow> recommendation_entry list \<Rightarrow>
   (py_error + accuracy_result) \<times> recommendation_entry list" where
  "accuracy_of ev cfg d recs =
     (case accuracy_loop ev d (numeric_columns cfg) ([], [], recs) of
        (Inl e, recs') \<Rightarrow> (Inl e, recs')
      | (Inr (ol, st), recs') \<Rightarrow> (Inr \<lparr>outliers = ol, statistical_summary = st\<rparr>, recs'))"

definition check_accuracy :: "env \<Rightarrow> store \<Rightarrow> validator \<Rightarrow> outcome" where
  "check_accuracy ev s v =
     (case accuracy_of ev (config v) (frames s (df v)) (recommendations v) of
        (Inl e, recs') \<Rightarrow> (Some e, s, v\<lparr>recommendations := recs'\<rparr>)
      | (Inr res, recs') \<Rightarrow>
          (None, s,
           v\<lparr>recommendations := recs',
             validation_results := (validation_results v)\<lparr>accuracy := Some res\<rparr>\<rparr>))"

section \<open>Scores and the whole run\<close>

text \<open>
  Each score reads the results and \<^verbatim>\<open>len(self.df)\<close>; a dimension that was not run scores
  100.
\<close>

definition calculate_validity_score :: "store \<Rightarrow> validator \<Rightarrow> py_error + rat" where
  "calculate_validity_score s v =
     (case validity (validation_results v) of
        None \<Rightarrow> Inr 100
      | Some r \<Rightarrow>
          (let total_violations =
                 sum_list (map (\<lambda>p. rv_violations (snd p)) (range_violations r)) +
                 sum_list (map (\<lambda>p. vv_violations (snd p)) (value_violations r))
           in case py_div (of_nat total_violations) (of_nat (n_rows (frames s (df v)))) of
                Inl e \<Rightarrow> Inl e
              | Inr q \<Rightarrow> Inr (max 0 (100 - q * 100))))"

definition calculate_consistency_score :: "store \<Rightarrow> validator \<Rightarrow> py_error + rat" where
  "calculate_consistency_score s v =
     (case consistency (validation_results v) of
        None \<Rightarrow> Inr 100
      | Some r \<Rightarrow>
          (let issues = (case temporal_consistency r of None \<Rightarrow> 0 | Some fd \<Rightarrow> cp_count fd)
           in case py_div (of_nat issues) (of_nat (n_rows (frames s (df v)))) of
                Inl e \<Rightarrow> Inl e
              | Inr q \<Rightarrow> Inr (max 0 (100 - q * 100))))"

definition calculate_accuracy_score :: "store \<Rightarrow> validator \<Rightarrow> py_error + rat" where
  "calculate_accuracy_score s v =
     (case accuracy (validation_results v) of
        None \<Rightarrow> Inr 100
      | Some r \<Rightarrow>
          (let total_outliers = sum_list (map (\<lambda>p. o_count (snd p)) (outliers r))
           in case py_div (of_nat total_outliers) (of_nat (n_rows (frames s (df v)))) of
                Inl e \<Rightarrow> Inl e
              | Inr q \<Rightarrow> Inr (max 0 (100 - (q * 100) * (1 / 2)))))"

text \<open>
  The end of \<^verbatim>\<open>run_all_validations\<close>: the five scores, their mean, and the counts of
  recommendations. Reading the result of a dimension that is absent raises \<^verbatim>\<open>KeyError\<close>.
\<close>

definition mean_of_scores :: "dimension_scores \<Rightarrow> pyfloat" where
  "mean_of_scores sc =
     mul_f (add_f (add_f (add_f (add_f (add_f (Fin 0) (s_completeness sc)) (s_uniqueness sc))
                     (s_validity sc)) (s_consistency sc)) (s_accuracy sc)) (1 / 5)"

definition overall_of :: "store \<Rightarrow> validator \<Rightarrow> outcome" where
  "overall_of s v =
     (case completeness (validation_results v) of
        None \<Rightarrow> (Some KeyError, s, v)
      | Some c \<Rightarrow>
          (case uniqueness (validation_results v) of
             None \<Rightarrow> (Some KeyError, s, v)
           | Some u \<Rightarrow>
               (case calculate_validity_score s v of
                  Inl e \<Rightarrow> (Some e, s, v)
                | Inr vs \<Rightarrow>
                    (case calculate_consistency_score s v of
                       Inl e \<Rightarrow> (Some e, s, v)
                     | Inr cs \<Rightarrow>
                         (case calculate_accuracy_score s v of
                            Inl e \<Rightarrow> (Some e, s, v)
                          | Inr acs \<Rightarrow>
                              (let scores =
                                     \<lparr>s_completeness = completeness_score c,
                                      s_uniqueness =
                                        Fin (100 - cp_percentage
                                                     (exact_duplicates (duplicate_records u))),
                                      s_validity = Fin vs, s_consistency = Fin cs,
                                      s_accuracy = Fin acs\<rparr>;
                                   overall_score = mean_of_scores scores
                               in (None, s,
                                   v\<lparr>validation_results := (validation_results v)
                                       \<lparr>overall := Some
                                          \<lparr>quality_score = round_f overall_score 2,
                                           dimension_scores = scores,
                                           total_recommendations = length (recommendations v),
                                           critical_issues =
                                             length (filter (\<lambda>r. severity r = HIGH)
                                                       (recommendations v))\<rparr>\<rparr>\<rparr>)))))))"

text \<open>Sequencing: an exception ends the run with the state as it is.\<close>

definition and_then :: "outcome \<Rightarrow> (store \<Rightarrow> validator \<Rightarrow> outcome) \<Rightarrow> outcome" where
  "and_then r f = (case r of (None, s, v) \<Rightarrow> f s v | (Some e, s, v) \<Rightarrow> (Some e, s, v))"

definition run_all_validations :: "env \<Rightarrow> store \<Rightarrow> validator \<Rightarrow> outcome" where
  "run_all_validations ev s v =
     and_then (and_then (and_then (and_then (and_then (check_completeness s v)
       check_uniqueness) (check_validity ev)) (check_consistency ev)) (check_accuracy ev))
       overall_of"

section \<open>Example inputs\<close>

text \<open>A store whose only frame, at address 0, is the caller's data frame.\<close>

definition store_with :: "dataframe \<Rightarrow> store" where
  "store_with d =
     \<lparr>frames = (\<lambda>a. if a = 0 then d else \<lparr>n_rows = 0, cols = []\<rparr>), next_addr = 1\<rparr>"

text \<open>
  \<^verbatim>\<open>ComprehensiveDataQualityValidator(df, config).run_all_validations()\<close> for the caller's
  frame at address 0.
\<close>

definition run_on :: "env \<Rightarrow> dataframe \<Rightarrow> config option \<Rightarrow> outcome" where
  "run_on ev d cfg = (case init (store_with d) 0 cfg of (s, v) \<Rightarrow> run_all_validations ev s v)"

text \<open>The expected columns and no records.\<close>

definition empty_frame :: dataframe where
  "empty_frame =
     \<lparr>n_rows = 0,
      cols = [(''date'', []), (''patient_id'', []), (''patient_gender'', []),
              (''patient_age'', []), (''patient_sat_score'', []), (''patient_race'', []),
              (''patient_admin_flag'', []), (''patient_waittime'', []),
              (''department_referral'', [])]\<rparr>"

text \<open>One record, and no column \<^verbatim>\<open>patient_id\<close>.\<close>

definition no_id_frame :: dataframe where
  "no_id_frame =
     \<lparr>n_rows = 1, cols = [(''date'', [StrV ''2024-01-01'']), (''patient_age'', [NumV 30])]\<rparr>"

text \<open>
  An environment for the examples: dates are given as numbers (seconds), the clock
  stands at 1000, and the standard deviation is not computed.
\<close>

definition test_env :: env where
  "test_env =
     \<lparr>now = 1000,
      parse_date = (\<lambda>v. case v of NumV x \<Rightarrow> Some \<lfloor>x\<rfloor> | TimeV t \<Rightarrow> Some t | _ \<Rightarrow> None),
      date_error = (\<lambda>vs. ''Unknown datetime string format''),
      series_std = (\<lambda>xs. NaN)\<rparr>"

text \<open>One record with a key and a date in the past, and a validator built on it.\<close>

definition dated_frame :: dataframe where
  "dated_frame = \<lparr>n_rows = 1, cols = [(''patient_id'', [NumV 1]), (''date'', [NumV 500])]\<rparr>"

definition dated_state :: "store \<times> validator" where
  "dated_state = init (store_with dated_frame) 0 None"

text \<open>Three records, the first and the last equal in every column.\<close>

definition pair_frame :: dataframe where
  "pair_frame =
     \<lparr>n_rows = 3,
      cols = [(''patient_id'', [NumV 1, NumV 2, NumV 1]),
              (''date'', [NumV 500, NumV 500, NumV 500]),
              (''patient_age'', [NumV 30, NumV 30, NumV 30])]\<rparr>"

text \<open>
  Six records: the last has no age and a date in the future, and the age 100 lies outside
  the fences of the other ages.
\<close>

definition scored_frame :: dataframe where
  "scored_frame =
     \<lparr>n_rows = 6,
      cols = [(''patient_id'', [NumV 1, NumV 2, NumV 3, NumV 4, NumV 5, NumV 6]),
              (''date'', [NumV 500, NumV 500, NumV 500, NumV 500, NumV 500, NumV 2000]),
              (''patient_age'', [NumV 1, NumV 1, NumV 1, NumV 1, NumV 100, NullV])]\<rparr>"

definition scored_state :: "store \<times> validator" where
  "scored_state = init (store_with scored_frame) 0 None"

text \<open>
  What the range check of \<^verbatim>\<open>check_validity\<close> asks of one cell,
  \<^verbatim>\<open>(value < min_val) | (value > max_val)\<close>.
\<close>

definition out_of_range :: "rat \<Rightarrow> rat \<Rightarrow> cell \<Rightarrow> bool" where
  "out_of_range lo hi v \<longleftrightarrow> cmp_cell Lt lo v \<or> cmp_cell Gt hi v"

text \<open>
  A configuration whose only range has its bounds the wrong way round, and one record whose
  age is the lower bound.
\<close>

definition inverted_config :: config where
  "inverted_config = default_config\<lparr>expected_ranges := [(''patient_age'', 10, 5)]\<rparr>"

definition inverted_state :: "store \<times> validator" where
  "inverted_state =
     init (store_with \<lparr>n_rows = 1,
                       cols = [(''patient_id'', [NumV 1]), (''date'', [NumV 500]),
                               (''patient_age'', [NumV 10])]\<rparr>) 0 (Some inverted_config)"

text \<open>Ages on the bounds of the default range, one unit outside them, and a missing age.\<close>

definition bounds_frame :: dataframe where
  "bounds_frame =
     \<lparr>n_rows = 5,
      cols = [(''patient_id'', [NumV 1, NumV 2, NumV 3, NumV 4, NumV 5]),
              (''date'', [NumV 500, NumV 500, NumV 500, NumV 500, NumV 500]),
              (''patient_age'', [NumV 0, NumV 120, NumV (- 1), NumV 121, NullV])]\<rparr>"

definition bounds_state :: "store \<times> validator" where
  "bounds_state = init (store_with bounds_frame) 0 None"

section \<open>Notions used in the statements\<close>

text \<open>
  Exactly one pair of equal rows: rows \<open>i < j\<close> are equal, and no other two rows are.
\<close>

definition one_duplicate_pair :: "cell list list \<Rightarrow> bool" where
  "one_duplicate_pair rs \<longleftrightarrow>
     (\<exists>i \<in> set [0..<length rs]. \<exists>j \<in> set [0..<length rs]. i < j \<and> rs ! i = rs ! j \<and>
        (\<forall>k \<in> set [0..<length rs]. \<forall>l \<in> set [0..<length rs].
           k < l \<and> rs ! k = rs ! l \<longrightarrow> k = i \<and> l = j))"

text \<open>A count as a percentage of a total, to 2 decimals: \<^verbatim>\<open>round((k / n) * 100, 2)\<close>.\<close>

definition percent_of :: "nat \<Rightarrow> nat \<Rightarrow> rat" where
  "percent_of k n = py_round (of_nat k / of_nat n * 100) 2"

text \<open>
  What an outcome shows of the validator: the exception, the validator's own frame, its
  configuration, its results and its recommendations, but no address.
\<close>

definition observe ::
  "outcome \<Rightarrow>
   py_error option \<times> dataframe \<times> config \<times> validation_results \<times> recommendation_entry list" where
  "observe r =
     (case r of (e, s, v) \<Rightarrow>
        (e, frames s (df v), config v, validation_results v, recommendations v))"

section \<open>Properties\<close>

subsection \<open>Nulls are no range violations\<close>

text \<open>
  Claim C8. In the validity range check a record whose value in the checked column is
  null is never marked as a violation, for every range; so the number of violations is
  at most the number of non-null values.
\<close>

theorem null_never_range_violation:
  assumes "out_of_range_mask vs lo hi = Inr m"
  shows "(\<forall>i < length vs. vs ! i = NullV \<longrightarrow> \<not> m ! i) \<and>
         count_true m \<le> length (filter (\<lambda>v. \<not> isnull v) vs)"
proof -
  have m: "m = map (\<lambda>v. cmp_cell Lt lo v \<or> cmp_cell Gt hi v) vs"
    using assms
    by (auto simp: out_of_range_mask_def series_cmp_def zip_map_map zip_same_conv_map
             split: if_splits)
  have "count_true m = length (filter (\<lambda>v. cmp_cell Lt lo v \<or> cmp_cell Gt hi v) vs)"
    unfolding m count_true_def by (induction vs) auto
  also have "\<dots> \<le> length (filter (\<lambda>v. \<not> isnull v) vs)"
    by (induction vs) (auto simp: isnull_def)
  finally have "count_true m \<le> length (filter (\<lambda>v. \<not> isnull v) vs)" .
  moreover have "\<forall>i < length vs. vs ! i = NullV \<longrightarrow> \<not> m ! i"
    unfolding m by simp
  ultimately show ?thesis by blast
qed

theorem null_never_range_violation_witness:
  "out_of_range_mask [NullV, NumV 200, NumV 5] 0 120 = Inr [False, True, False] \<and>
   \<not> [False, True, False] ! 0 \<and> count_true [False, True, False] \<le> 2"
proof -
  have h: "out_of_range_mask [NullV, NumV 200, NumV 5] 0 120 = Inr [False, True, False]"
    by (simp add: out_of_range_mask_def series_cmp_def)
  show ?thesis using h null_never_range_violation[OF h] by (simp add: isnull_def)
qed

subsection \<open>The empty data set\<close>

text \<open>
  Claim C1 says that for the empty data set \<^verbatim>\<open>run_all_validations\<close> completes with every
  score equal to 100. The run raises instead: \<^verbatim>\<open>check_completeness\<close> divides numpy
  integers and goes on, and \<^verbatim>\<open>check_uniqueness\<close> then divides
  \<^verbatim>\<open>len(exact_duplicates)\<close> by \<^verbatim>\<open>len(self.df)\<close>, two Python integers, both 0. No result
  for uniqueness and no overall score is stored.
\<close>

theorem empty_dataset_raises:
  "\<exists>s v. run_on ev empty_frame None = (Some ZeroDivisionError, s, v) \<and>
          uniqueness (validation_results v) = None \<and> overall (validation_results v) = None"
  by (simp add: run_on_def init_def df_copy_def store_with_def run_all_validations_def
        and_then_def check_completeness_def completeness_of_def check_uniqueness_def
        uniqueness_of_def empty_frame_def rows_of_def duplicated_def count_true_def py_div_def
        no_results_def Let_def split: prod.splits)

subsection \<open>An absent key column\<close>

text \<open>
  Claim C2 says that every check skips a column that is absent. \<^verbatim>\<open>check_uniqueness\<close>
  calls \<^verbatim>\<open>duplicated(subset=['patient_id', 'date'])\<close> without asking whether the two columns
  exist, and raises \<^verbatim>\<open>KeyError\<close> on a frame without \<^verbatim>\<open>patient_id\<close>; the loop right after it
  guards the same column with \<^verbatim>\<open>if col in self.df.columns\<close>.
\<close>

theorem absent_patient_id_raises:
  "\<exists>s v. run_on ev no_id_frame None = (Some KeyError, s, v) \<and>
          uniqueness (validation_results v) = None"
  by (simp add: run_on_def init_def df_copy_def store_with_def run_all_validations_def
        and_then_def check_completeness_def completeness_of_def check_uniqueness_def
        uniqueness_of_def no_id_frame_def rows_of_def duplicated_def count_true_def py_div_def
        subset_rows_def columns_def row_at_def no_results_def Let_def split: prod.splits)

subsection \<open>What each method does to the store\<close>

lemma check_completeness_store: "fst (snd (check_completeness s v)) = s"
  and check_completeness_df: "df (snd (snd (check_completeness s v))) = df v"
  by (auto simp: check_completeness_def Let_def split: prod.splits)

lemma check_uniqueness_store: "fst (snd (check_uniqueness s v)) = s"
  and check_uniqueness_df: "df (snd (snd (check_uniqueness s v))) = df v"
  by (auto simp: check_uniqueness_def Let_def split: prod.splits sum.splits)

lemma check_validity_store: "fst (snd (check_validity ev s v)) = s"
  and check_validity_df: "df (snd (snd (check_validity ev s v))) = df v"
  by (auto simp: check_validity_def Let_def split: prod.splits sum.splits)

lemma check_accuracy_store: "fst (snd (check_accuracy ev s v)) = s"
  and check_accuracy_df: "df (snd (snd (check_accuracy ev s v))) = df v"
  by (auto simp: check_accuracy_def Let_def split: prod.splits sum.splits)

lemma overall_of_store: "fst (snd (overall_of s v)) = s"
  and overall_of_df: "df (snd (snd (overall_of s v))) = df v"
  by (auto simp: overall_of_def Let_def split: prod.splits sum.splits option.splits)

lemma consistency_of_frame:
  "fst (snd (consistency_of ev d recs)) =
     (case getcol d ''date'' of None \<Rightarrow> d
      | Some vs \<Rightarrow> setcol d ''date_parsed'' (to_datetime_coerce ev vs))"
  by (auto simp: consistency_of_def temporal_of_def Let_def split: prod.splits sum.splits option.splits)

lemma check_consistency_store:
  "fst (snd (check_consistency ev s v)) =
     s\<lparr>frames := (frames s)(df v := fst (snd (consistency_of ev (frames s (df v)) (recommendations v))))\<rparr>"
  and check_consistency_df: "df (snd (snd (check_consistency ev s v))) = df v"
  by (auto simp: check_consistency_def Let_def split: prod.splits sum.splits)

lemma setcol_n_rows: "n_rows (setcol d c vs) = n_rows d"
  by (simp add: setcol_def)

lemma getcol_setcol: "getcol (setcol d c vs) = (getcol d)(c \<mapsto> vs)"
  by (rule ext) (simp add: setcol_def getcol_def update_conv)

subsection \<open>Which checks change the validator's frame\<close>

text \<open>
  Claim C4 says that no check changes the validator's data set. As stated it fails:
  \<^verbatim>\<open>check_consistency\<close> assigns \<^verbatim>\<open>self.df['date_parsed']\<close>, so on a frame with a \<^verbatim>\<open>date\<close>
  column the frame after the check has one more column than before.
\<close>

theorem consistency_mutates_frame:
  "frames (fst (snd (check_consistency test_env (fst dated_state) (snd dated_state))))
      (df (snd dated_state))
   \<noteq> frames (fst dated_state) (df (snd dated_state))"
  by (simp add: check_consistency_store consistency_of_frame dated_state_def init_def df_copy_def
       store_with_def dated_frame_def getcol_def setcol_def Let_def)

text \<open>
  Claim C4, amended. \<^verbatim>\<open>check_completeness\<close>, \<^verbatim>\<open>check_uniqueness\<close>, \<^verbatim>\<open>check_validity\<close> and
  \<^verbatim>\<open>check_accuracy\<close> leave the whole store, and so the validator's frame, as it was,
  whether they return or raise. \<^verbatim>\<open>check_consistency\<close> changes only the validator's own
  frame, and only when it has a \<^verbatim>\<open>date\<close> column: it then sets the column \<^verbatim>\<open>date_parsed\<close> to
  the parsed dates, which keeps the number of rows and every other column.
\<close>

theorem checkers_frame:
  "fst (snd (check_completeness s v)) = s \<and>
   fst (snd (check_uniqueness s v)) = s \<and>
   fst (snd (check_validity ev s v)) = s \<and>
   fst (snd (check_accuracy ev s v)) = s \<and>
   fst (snd (check_consistency ev s v)) =
     s\<lparr>frames := (frames s)(df v :=
        (case getcol (frames s (df v)) ''date'' of
           None \<Rightarrow> frames s (df v)
         | Some vs \<Rightarrow> setcol (frames s (df v)) ''date_parsed'' (to_datetime_coerce ev vs)))\<rparr> \<and>
   n_rows (setcol d c ws) = n_rows d \<and> getcol (setcol d c ws) = (getcol d)(c \<mapsto> ws)"
  by (simp add: check_completeness_store check_uniqueness_store check_validity_store
        check_accuracy_store check_consistency_store consistency_of_frame setcol_n_rows
        getcol_setcol)

subsection \<open>The caller's frame\<close>

lemma and_then_frame:
  assumes "\<And>s v. df (snd (snd (f s v))) = df v"
      and "\<And>s v b. b \<noteq> df v \<Longrightarrow> frames (fst (snd (f s v))) b = frames s b"
      and "df (snd (snd r)) = x" and "b \<noteq> x"
  shows "df (snd (snd (and_then r f))) = x \<and>
         frames (fst (snd (and_then r f))) b = frames (fst (snd r)) b"
  using assms by (auto simp: and_then_def split: prod.splits option.splits)

lemma run_frame:
  assumes "b \<noteq> df v"
  shows "frames (fst (snd (run_all_validations ev s v))) b = frames s b"
proof -
  let ?r1 = "check_completeness s v"
  let ?r2 = "and_then ?r1 check_uniqueness"
  let ?r3 = "and_then ?r2 (check_validity ev)"
  let ?r4 = "and_then ?r3 (check_consistency ev)"
  let ?r5 = "and_then ?r4 (check_accuracy ev)"
  have 1: "df (snd (snd ?r1)) = df v" "frames (fst (snd ?r1)) b = frames s b"
    by (simp_all add: check_completeness_df check_completeness_store)
  have 2: "df (snd (snd ?r2)) = df v \<and> frames (fst (snd ?r2)) b = frames (fst (snd ?r1)) b"
    by (rule and_then_frame) (simp_all add: check_uniqueness_df check_uniqueness_store 1 assms)
  have 3: "df (snd (snd ?r3)) = df v \<and> frames (fst (snd ?r3)) b = frames (fst (snd ?r2)) b"
    by (rule and_then_frame) (simp_all add: check_validity_df check_validity_store 2 assms)
  have 4: "df (snd (snd ?r4)) = df v \<and> frames (fst (snd ?r4)) b = frames (fst (snd ?r3)) b"
    by (rule and_then_frame) (simp_all add: check_consistency_df check_consistency_store 3 assms)
  have 5: "df (snd (snd ?r5)) = df v \<and> frames (fst (snd ?r5)) b = frames (fst (snd ?r4)) b"
    by (rule and_then_frame) (simp_all add: check_accuracy_df check_accuracy_store 4 assms)
  have 6: "df (snd (snd (and_then ?r5 overall_of))) = df v \<and>
           frames (fst (snd (and_then ?r5 overall_of))) b = frames (fst (snd ?r5)) b"
    by (rule and_then_frame) (simp_all add: overall_of_df overall_of_store 5 assms)
  show ?thesis unfolding run_all_validations_def using 1 2 3 4 5 6 by simp
qed

lemma allocated_frames_unchanged:
  assumes "b < next_addr s"
  shows "frames (fst (snd (run_all_validations ev (fst (init s a cfg)) (snd (init s a cfg))))) b
           = frames s b"
proof -
  have d: "df (snd (init s a cfg)) = next_addr s"
    by (simp add: init_def df_copy_def Let_def)
  have f: "frames (fst (init s a cfg)) b = frames s b"
    using assms by (simp add: init_def df_copy_def Let_def)
  from assms d have "b \<noteq> df (snd (init s a cfg))" by simp
  from run_frame[OF this] f show ?thesis by simp
qed

text \<open>
  Claim C10. The caller's frame lives at an address \<open>a\<close> allocated before the validator is
  built. \<^verbatim>\<open>__init__\<close> copies it to two fresh addresses, and \<^verbatim>\<open>run_all_validations\<close> writes
  only to the first of them, so after the run, returned or raised, the frame at \<open>a\<close> is
  what it was.
\<close>

theorem caller_frame_unchanged:
  assumes "a < next_addr s"
  shows "frames (fst (snd (run_all_validations ev (fst (init s a cfg)) (snd (init s a cfg))))) a
           = frames s a"
  using assms by (rule allocated_frames_unchanged)

theorem caller_frame_unchanged_witness:
  "(0::nat) < next_addr (store_with dated_frame) \<and>
   frames (fst (snd (run_all_validations test_env (fst (init (store_with dated_frame) 0 None))
                       (snd (init (store_with dated_frame) 0 None))))) 0
     = dated_frame"
proof -
  have h: "(0::nat) < next_addr (store_with dated_frame)" by (simp add: store_with_def)
  show ?thesis using h caller_frame_unchanged[OF h, of test_env None]
    by (simp add: store_with_def)
qed

subsection \<open>Counting duplicated rows\<close>

lemma count_list_card: "count_list rs x = card {l. l < length rs \<and> rs ! l = x}"
proof -
  have "count_list rs x = length (filter (\<lambda>y. y = x) rs)"
    by (induction rs) auto
  also have "\<dots> = card {l. l < length rs \<and> rs ! l = x}"
    by (simp add: length_filter_conv_card)
  finally show ?thesis .
qed

lemma count_list_gt1:
  assumes "k < length rs"
  shows "1 < count_list rs (rs ! k) \<longleftrightarrow> (\<exists>l < length rs. l \<noteq> k \<and> rs ! l = rs ! k)"
proof -
  define S where "S = {l. l < length rs \<and> rs ! l = rs ! k}"
  have fin: "finite S" by (simp add: S_def)
  have kin: "k \<in> S" using assms by (simp add: S_def)
  have "1 < card S \<longleftrightarrow> (\<exists>l \<in> S. l \<noteq> k)"
  proof
    assume a: "1 < card S"
    have "card (S - {k}) = card S - 1" using fin kin by (simp add: card_Diff_singleton)
    with a have "card (S - {k}) \<noteq> 0" by simp
    then have "S - {k} \<noteq> {}" by (intro notI) simp
    then obtain l where "l \<in> S - {k}" by blast
    then show "\<exists>l \<in> S. l \<noteq> k" by blast
  next
    assume "\<exists>l \<in> S. l \<noteq> k"
    then obtain l where l: "l \<in> S" "l \<noteq> k" by blast
    then have "{k, l} \<subseteq> S" using kin by blast
    then have "card {k, l} \<le> card S" using fin by (rule_tac card_mono)
    moreover have "card {k, l} = 2" using l by simp
    ultimately show "1 < card S" by simp
  qed
  moreover have "(\<exists>l \<in> S. l \<noteq> k) \<longleftrightarrow> (\<exists>l < length rs. l \<noteq> k \<and> rs ! l = rs ! k)"
    unfolding S_def by blast
  moreover have "count_list rs (rs ! k) = card S"
    unfolding S_def by (rule count_list_card)
  ultimately show ?thesis by simp
qed


lemma dup_pair_indices:
  assumes ij: "i < j" "j < length rs" "rs ! i = rs ! j"
    and uniq: "\<And>k l. k < l \<Longrightarrow> l < length rs \<Longrightarrow> rs ! k = rs ! l \<Longrightarrow> k = i \<and> l = j"
  shows "{k. k < length rs \<and> 1 < count_list rs (rs ! k)} = {i, j}"
proof (rule set_eqI)
  fix k
  show "k \<in> {k. k < length rs \<and> 1 < count_list rs (rs ! k)} \<longleftrightarrow> k \<in> {i, j}"
  proof
    assume "k \<in> {k. k < length rs \<and> 1 < count_list rs (rs ! k)}"
    then have k: "k < length rs" and c: "1 < count_list rs (rs ! k)" by blast+
    from count_list_gt1[OF k, THEN iffD1, OF c]
    obtain l where l: "l < length rs" "l \<noteq> k" "rs ! l = rs ! k"
      by blast
    show "k \<in> {i, j}"
    proof (cases "l < k")
      case True
      from uniq[OF True k l(3)] show ?thesis by simp
    next
      case False
      with l have lt: "k < l" by simp
      from uniq[OF lt l(1) l(3)[symmetric]] show ?thesis by simp
    qed
  next
    assume "k \<in> {i, j}"
    then consider "k = i" | "k = j" by blast
    then show "k \<in> {k. k < length rs \<and> 1 < count_list rs (rs ! k)}"
    proof cases
      case 1
      have i: "i < length rs" using ij by simp
      have "\<exists>l < length rs. l \<noteq> i \<and> rs ! l = rs ! i"
        using ij by (intro exI[of _ j]) simp
      then have "1 < count_list rs (rs ! i)" by (rule count_list_gt1[OF i, THEN iffD2])
      with 1 i show ?thesis by blast
    next
      case 2
      have "\<exists>l < length rs. l \<noteq> j \<and> rs ! l = rs ! j"
        using ij by (intro exI[of _ i]) simp
      then have "1 < count_list rs (rs ! j)" by (rule count_list_gt1[OF ij(2), THEN iffD2])
      with 2 ij(2) show ?thesis by blast
    qed
  qed
qed

lemma dup_pair_count:
  assumes ij: "i < j" "j < length rs" "rs ! i = rs ! j"
    and uniq: "\<And>k l. k < l \<Longrightarrow> l < length rs \<Longrightarrow> rs ! k = rs ! l \<Longrightarrow> k = i \<and> l = j"
  shows "length (filter (\<lambda>r. 1 < count_list rs r) rs) = 2"
proof -
  have "length (filter (\<lambda>r. 1 < count_list rs r) rs)
          = card {k. k < length rs \<and> 1 < count_list rs (rs ! k)}"
    by (simp add: length_filter_conv_card)
  also have "\<dots> = card {i, j}"
    by (simp only: dup_pair_indices[OF ij uniq])
  also have "\<dots> = 2" using ij(1) by simp
  finally show ?thesis .
qed

lemma count_true_map: "count_true (map P xs) = length (filter P xs)"
  unfolding count_true_def by (induction xs) simp_all

lemma one_pair_count:
  assumes "one_duplicate_pair rs"
  shows "count_true (duplicated rs) = 2" and "0 < length rs"
proof -
  from assms[unfolded one_duplicate_pair_def]
  obtain i j where i: "i \<in> set [0..<length rs]" and j: "j \<in> set [0..<length rs]"
    and ij: "i < j" "rs ! i = rs ! j"
    and u: "\<forall>k \<in> set [0..<length rs]. \<forall>l \<in> set [0..<length rs].
           k < l \<and> rs ! k = rs ! l \<longrightarrow> k = i \<and> l = j"
    by blast
  have jl: "j < length rs" using j by simp
  have uniq: "\<And>k l. k < l \<Longrightarrow> l < length rs \<Longrightarrow> rs ! k = rs ! l \<Longrightarrow> k = i \<and> l = j"
  proof -
    fix k l assume a: "k < l" "l < length rs" "rs ! k = rs ! l"
    then have "k \<in> set [0..<length rs]" "l \<in> set [0..<length rs]" by simp_all
    with u a show "k = i \<and> l = j" by blast
  qed
  have "count_true (duplicated rs) = length (filter (\<lambda>r. 1 < count_list rs r) rs)"
    unfolding duplicated_def by (rule count_true_map)
  also have "\<dots> = 2" by (rule dup_pair_count[OF ij(1) jl ij(2) uniq])
  finally show "count_true (duplicated rs) = 2" .
  from jl show "0 < length rs" by (cases rs) simp_all
qed

lemma length_rows_of: "length (rows_of d) = n_rows d"
  by (simp add: rows_of_def)

lemma unique_constraints_loop_returns:
  "0 < n_rows d \<Longrightarrow> \<exists>uc'. unique_constraints_loop d cs uc = Inr uc'"
  by (induction cs arbitrary: uc) (auto simp: py_div_def Let_def split: option.splits)

lemma subset_rows_returns:
  assumes "getcol d a \<noteq> None" "getcol d b \<noteq> None"
  shows "\<exists>k. subset_rows d [a, b] = Inr k"
proof -
  from assms have "a \<in> set (columns d)" "b \<in> set (columns d)"
    by (simp_all add: getcol_def columns_def map_of_eq_None_iff)
  then show ?thesis by (simp add: subset_rows_def)
qed

text \<open>
  Claim C9. When the validator's data set holds exactly one pair of records equal in every
  column and no other duplicates (and has the columns \<^verbatim>\<open>patient_id\<close> and \<^verbatim>\<open>date\<close> that the
  check reads), \<^verbatim>\<open>check_uniqueness\<close> returns, reports \<^verbatim>\<open>exact_duplicates\<close> with count 2,
  and the recommendations it appends hold exactly one of severity MEDIUM.
\<close>

theorem one_pair_flags_both:
  assumes "one_duplicate_pair (rows_of (frames s (df v)))"
    and "getcol (frames s (df v)) ''patient_id'' \<noteq> None"
    and "getcol (frames s (df v)) ''date'' \<noteq> None"
  shows "\<exists>v' res. check_uniqueness s v = (None, s, v') \<and>
           uniqueness (validation_results v') = Some res \<and>
           cp_count (exact_duplicates (duplicate_records res)) = 2 \<and>
           length (filter (\<lambda>r. severity r = MEDIUM) (recommendations v'))
             = Suc (length (filter (\<lambda>r. severity r = MEDIUM) (recommendations v)))"
proof -
  define d where "d = frames s (df v)"
  have e: "count_true (duplicated (rows_of d)) = 2" and n: "0 < n_rows d"
    using one_pair_count[OF assms(1)] by (simp_all add: d_def length_rows_of)
  obtain k where k: "subset_rows d [''patient_id'', ''date''] = Inr k"
    using subset_rows_returns[OF assms(2,3)] unfolding d_def by blast
  obtain uc where uc: "unique_constraints_loop d
      [''patient_id'', ''patient_gender'', ''patient_race'', ''department_referral''] [] = Inr uc"
    using unique_constraints_loop_returns[OF n] by blast
  have n0: "n_rows d \<noteq> 0" using n by simp
  show ?thesis
    unfolding check_uniqueness_def d_def[symmetric]
    by (simp add: uniqueness_of_def Let_def py_div_def e n0 k uc del: unique_constraints_loop.simps)
qed

lemma rows_of_pair_frame:
  "rows_of pair_frame =
     [[NumV 1, NumV 500, NumV 30], [NumV 2, NumV 500, NumV 30], [NumV 1, NumV 500, NumV 30]]"
  by (simp add: rows_of_def pair_frame_def row_at_def eval_nat_numeral)

lemma pair_frame_one_pair: "one_duplicate_pair (rows_of pair_frame)"
  unfolding rows_of_pair_frame one_duplicate_pair_def
  by (simp add: eval_nat_numeral)

theorem one_pair_flags_both_witness:
  "one_duplicate_pair (rows_of pair_frame) \<and>
   getcol pair_frame ''patient_id'' \<noteq> None \<and> getcol pair_frame ''date'' \<noteq> None \<and>
   (\<exists>v' res. check_uniqueness (fst (init (store_with pair_frame) 0 None))
                 (snd (init (store_with pair_frame) 0 None))
               = (None, fst (init (store_with pair_frame) 0 None), v') \<and>
      uniqueness (validation_results v') = Some res \<and>
      cp_count (exact_duplicates (duplicate_records res)) = 2 \<and>
      length (filter (\<lambda>r. severity r = MEDIUM) (recommendations v')) = 1)"
proof -
  let ?s = "fst (init (store_with pair_frame) 0 None)"
  let ?v = "snd (init (store_with pair_frame) 0 None)"
  have f: "frames ?s (df ?v) = pair_frame"
    by (simp add: init_def df_copy_def store_with_def Let_def)
  have r: "recommendations ?v = []"
    by (simp add: init_def df_copy_def Let_def)
  have h1: "one_duplicate_pair (rows_of (frames ?s (df ?v)))"
    unfolding f by (rule pair_frame_one_pair)
  have h2: "getcol (frames ?s (df ?v)) ''patient_id'' \<noteq> None"
    unfolding f by (simp add: getcol_def pair_frame_def)
  have h3: "getcol (frames ?s (df ?v)) ''date'' \<noteq> None"
    unfolding f by (simp add: getcol_def pair_frame_def)
  from one_pair_flags_both[OF h1 h2 h3] h1 h2 h3 show ?thesis
    unfolding f r by simp
qed

subsection \<open>A run that returns\<close>

lemma and_then_None:
  assumes "and_then r f = (None, s', v')"
  obtains s1 v1 where "r = (None, s1, v1)" "f s1 v1 = (None, s', v')"
  using assms by (auto simp: and_then_def split: prod.splits option.splits)

lemma check_completeness_None:
  assumes "check_completeness s v = (e, s', v')"
  shows "e = None \<and> s' = s \<and>
         v' = v\<lparr>recommendations := snd (completeness_of (config v) (frames s (df v)) (recommendations v)),
                validation_results := (validation_results v)
                  \<lparr>completeness := Some (fst (completeness_of (config v) (frames s (df v)) (recommendations v)))\<rparr>\<rparr>"
  using assms by (auto simp: check_completeness_def Let_def split: prod.splits)

lemma check_uniqueness_None:
  assumes "check_uniqueness s v = (None, s', v')"
  obtains res recs' where "uniqueness_of (frames s (df v)) (recommendations v) = (Inr res, recs')"
    "s' = s"
    "v' = v\<lparr>recommendations := recs',
             validation_results := (validation_results v)\<lparr>uniqueness := Some res\<rparr>\<rparr>"
  using assms by (auto simp: check_uniqueness_def split: prod.splits sum.splits)

lemma check_validity_None:
  assumes "check_validity ev s v = (None, s', v')"
  obtains res recs' where
    "validity_of ev (config v) (frames s (df v)) (recommendations v) = (Inr res, recs')"
    "s' = s"
    "v' = v\<lparr>recommendations := recs',
             validation_results := (validation_results v)\<lparr>validity := Some res\<rparr>\<rparr>"
  using assms by (auto simp: check_validity_def split: prod.splits sum.splits)

lemma check_consistency_None:
  assumes "check_consistency ev s v = (None, s', v')"
  obtains res d1 recs' where
    "consistency_of ev (frames s (df v)) (recommendations v) = (Inr res, d1, recs')"
    "s' = s\<lparr>frames := (frames s)(df v := d1)\<rparr>"
    "v' = v\<lparr>recommendations := recs',
             validation_results := (validation_results v)\<lparr>consistency := Some res\<rparr>\<rparr>"
  using assms by (auto simp: check_consistency_def Let_def split: prod.splits sum.splits)

lemma check_accuracy_None:
  assumes "check_accuracy ev s v = (None, s', v')"
  obtains res recs' where
    "accuracy_of ev (config v) (frames s (df v)) (recommendations v) = (Inr res, recs')"
    "s' = s"
    "v' = v\<lparr>recommendations := recs',
             validation_results := (validation_results v)\<lparr>accuracy := Some res\<rparr>\<rparr>"
  using assms by (auto simp: check_accuracy_def split: prod.splits sum.splits)


lemma run_returns:
  assumes "run_all_validations ev s v = (None, s', v')"
  obtains c r1 u r2 va r3 co d1 r4 ac r5 where
    "completeness_of (config v) (frames s (df v)) (recommendations v) = (c, r1)"
    "uniqueness_of (frames s (df v)) r1 = (Inr u, r2)"
    "validity_of ev (config v) (frames s (df v)) r2 = (Inr va, r3)"
    "consistency_of ev (frames s (df v)) r3 = (Inr co, d1, r4)"
    "accuracy_of ev (config v) d1 r4 = (Inr ac, r5)"
    "overall_of (s\<lparr>frames := (frames s)(df v := d1)\<rparr>)
       (v\<lparr>recommendations := r5,
          validation_results := (validation_results v)
            \<lparr>completeness := Some c, uniqueness := Some u, validity := Some va,
             consistency := Some co, accuracy := Some ac\<rparr>\<rparr>) = (None, s', v')"
proof -
  from assms obtain s5 v5 where a5:
      "and_then (and_then (and_then (and_then (check_completeness s v) check_uniqueness)
         (check_validity ev)) (check_consistency ev)) (check_accuracy ev) = (None, s5, v5)"
    and o: "overall_of s5 v5 = (None, s', v')"
    unfolding run_all_validations_def by (rule and_then_None)
  from a5 obtain s4 v4 where a4:
      "and_then (and_then (and_then (check_completeness s v) check_uniqueness)
         (check_validity ev)) (check_consistency ev) = (None, s4, v4)"
    and k5: "check_accuracy ev s4 v4 = (None, s5, v5)"
    by (rule and_then_None)
  from a4 obtain s3 v3 where a3:
      "and_then (and_then (check_completeness s v) check_uniqueness) (check_validity ev)
         = (None, s3, v3)"
    and k4: "check_consistency ev s3 v3 = (None, s4, v4)"
    by (rule and_then_None)
  from a3 obtain s2 v2 where a2:
      "and_then (check_completeness s v) check_uniqueness = (None, s2, v2)"
    and k3: "check_validity ev s2 v2 = (None, s3, v3)"
    by (rule and_then_None)
  from a2 obtain s1 v1 where k1: "check_completeness s v = (None, s1, v1)"
    and k2: "check_uniqueness s1 v1 = (None, s2, v2)"
    by (rule and_then_None)
  obtain c r1 where c: "completeness_of (config v) (frames s (df v)) (recommendations v) = (c, r1)"
    by (cases "completeness_of (config v) (frames s (df v)) (recommendations v)")
  from check_completeness_None[OF k1] c have s1: "s1 = s"
    and v1: "v1 = v\<lparr>recommendations := r1,
                validation_results := (validation_results v)\<lparr>completeness := Some c\<rparr>\<rparr>"
    by simp_all
  from k2 obtain u r2 where u: "uniqueness_of (frames s1 (df v1)) (recommendations v1) = (Inr u, r2)"
    and s2: "s2 = s1"
    and v2: "v2 = v1\<lparr>recommendations := r2,
             validation_results := (validation_results v1)\<lparr>uniqueness := Some u\<rparr>\<rparr>"
    by (rule check_uniqueness_None)
  from k3 obtain va r3 where va:
      "validity_of ev (config v2) (frames s2 (df v2)) (recommendations v2) = (Inr va, r3)"
    and s3: "s3 = s2"
    and v3: "v3 = v2\<lparr>recommendations := r3,
             validation_results := (validation_results v2)\<lparr>validity := Some va\<rparr>\<rparr>"
    by (rule check_validity_None)
  from k4 obtain co d1 r4 where co:
      "consistency_of ev (frames s3 (df v3)) (recommendations v3) = (Inr co, d1, r4)"
    and s4: "s4 = s3\<lparr>frames := (frames s3)(df v3 := d1)\<rparr>"
    and v4: "v4 = v3\<lparr>recommendations := r4,
             validation_results := (validation_results v3)\<lparr>consistency := Some co\<rparr>\<rparr>"
    by (rule check_consistency_None)
  from k5 obtain ac r5 where ac:
      "accuracy_of ev (config v4) (frames s4 (df v4)) (recommendations v4) = (Inr ac, r5)"
    and s5: "s5 = s4"
    and v5: "v5 = v4\<lparr>recommendations := r5,
             validation_results := (validation_results v4)\<lparr>accuracy := Some ac\<rparr>\<rparr>"
    by (rule check_accuracy_None)
  show thesis
  proof (rule that[of c r1 u r2 va r3 co d1 r4 ac r5])
    show "completeness_of (config v) (frames s (df v)) (recommendations v) = (c, r1)" by (rule c)
    show "uniqueness_of (frames s (df v)) r1 = (Inr u, r2)" using u by (simp add: s1 v1)
    show "validity_of ev (config v) (frames s (df v)) r2 = (Inr va, r3)"
      using va by (simp add: s1 v1 s2 v2)
    show "consistency_of ev (frames s (df v)) r3 = (Inr co, d1, r4)"
      using co by (simp add: s1 v1 s2 v2 s3 v3)
    show "accuracy_of ev (config v) d1 r4 = (Inr ac, r5)"
      using ac by (simp add: s1 v1 s2 v2 s3 v3 s4 v4)
    show "overall_of (s\<lparr>frames := (frames s)(df v := d1)\<rparr>)
       (v\<lparr>recommendations := r5,
          validation_results := (validation_results v)
            \<lparr>completeness := Some c, uniqueness := Some u, validity := Some va,
             consistency := Some co, accuracy := Some ac\<rparr>\<rparr>) = (None, s', v')"
      using o by (simp add: s1 v1 s2 v2 s3 v3 s4 v4 s5 v5)
  qed
qed

subsection \<open>Rounding keeps a percentage a percentage\<close>

lemma round_half_even_lower:
  assumes "of_int a \<le> y"
  shows "a \<le> round_half_even y"
proof -
  from assms have "a \<le> \<lfloor>y\<rfloor>" by (simp add: le_floor_iff)
  then show ?thesis by (simp add: round_half_even_def Let_def)
qed

lemma round_half_even_upper:
  assumes "y \<le> of_int b"
  shows "round_half_even y \<le> b"
proof (cases "y - of_int \<lfloor>y\<rfloor> < 1 / 2")
  case True
  from assms have "\<lfloor>y\<rfloor> \<le> b" by (simp add: floor_le_iff) 
  with True show ?thesis by (simp add: round_half_even_def Let_def)
next
  case False
  then have "of_int \<lfloor>y\<rfloor> < y" by simp
  with assms have "of_int \<lfloor>y\<rfloor> < (of_int b :: rat)" by linarith
  then have "\<lfloor>y\<rfloor> < b" by simp
  then show ?thesis by (simp add: round_half_even_def Let_def)
qed

lemma py_round_percent:
  assumes "0 \<le> x" "x \<le> 100"
  shows "0 \<le> py_round x 2" "py_round x 2 \<le> 100"
proof -
  from assms(1) have "of_int 0 \<le> x * 10 ^ 2" by simp
  then have "0 \<le> round_half_even (x * 10 ^ 2)" by (rule round_half_even_lower)
  then show "0 \<le> py_round x 2" by (simp add: py_round_def)
  from assms(2) have "x * 10 ^ 2 \<le> of_int 10000" by simp
  then have "round_half_even (x * 10 ^ 2) \<le> 10000" by (rule round_half_even_upper)
  then have "(of_int (round_half_even (x * 10 ^ 2)) :: rat) \<le> of_int 10000"
    by (simp only: of_int_le_iff)
  then show "py_round x 2 \<le> 100" by (simp add: py_round_def)
qed

subsection \<open>The five scores and their mean\<close>

lemma calculate_validity_score_bounds:
  assumes "calculate_validity_score s v = Inr x"
  shows "0 \<le> x \<and> x \<le> 100"
  using assms
  by (auto simp: calculate_validity_score_def py_div_def Let_def max_def
           split: option.splits if_splits)

lemma calculate_consistency_score_bounds:
  assumes "calculate_consistency_score s v = Inr x"
  shows "0 \<le> x \<and> x \<le> 100"
  using assms
  by (auto simp: calculate_consistency_score_def py_div_def Let_def max_def
           split: option.splits if_splits)

lemma calculate_accuracy_score_bounds:
  assumes "calculate_accuracy_score s v = Inr x"
  shows "0 \<le> x \<and> x \<le> 100"
  using assms
  by (auto simp: calculate_accuracy_score_def py_div_def Let_def max_def
           split: option.splits if_splits)

lemma sum_list_bounded:
  "(\<And>x. x \<in> set xs \<Longrightarrow> f x \<le> (n::nat)) \<Longrightarrow> sum_list (map f xs) \<le> n * length xs"
  by (induction xs) (auto simp: add_mono)

lemma null_count_le: "null_count vs \<le> length vs"
  by (simp add: null_count_def)

lemma missing_cells_le:
  assumes "wf_df d"
  shows "sum_list (map (\<lambda>p. null_count (snd p)) (cols d)) \<le> n_rows d * length (cols d)"
proof (rule sum_list_bounded)
  fix p assume "p \<in> set (cols d)"
  with assms have "length (snd p) = n_rows d" by (simp add: wf_df_def)
  with null_count_le[of "snd p"] show "null_count (snd p) \<le> n_rows d" by simp
qed

lemma completeness_score_eq:
  "completeness_score (fst (completeness_of cfg d recs)) =
     round_f (mul_f (np_div (of_nat (n_rows d * length (cols d)) -
                              of_nat (sum_list (map (\<lambda>p. null_count (snd p)) (cols d))))
                            (of_nat (n_rows d * length (cols d)))) 100) 2"
  by (simp add: completeness_of_def Let_def split: prod.splits)

lemma completeness_good:
  assumes "wf_df d" "n_rows d \<noteq> 0" "cols d \<noteq> []"
  shows "\<exists>x. completeness_score (fst (completeness_of cfg d recs)) = Fin x \<and> 0 \<le> x \<and> x \<le> 100"
proof -
  define T where "T = n_rows d * length (cols d)"
  define M where "M = sum_list (map (\<lambda>p. null_count (snd p)) (cols d))"
  have T: "0 < T" using assms(2,3) by (simp add: T_def)
  have M: "M \<le> T" unfolding M_def T_def by (rule missing_cells_le[OF assms(1)])
  define q where "q = ((of_nat T - of_nat M) / of_nat T :: rat)"
  define r where "r = q * 100"
  have Tr: "(0::rat) < of_nat T" using T by simp
  have Mr: "(of_nat M :: rat) \<le> of_nat T" using M by simp
  have q0: "0 \<le> q" unfolding q_def using Tr Mr by simp
  have q1: "q \<le> 1" unfolding q_def using Tr Mr by simp
  have r0: "0 \<le> r" unfolding r_def using q0 by simp
  have r1: "r \<le> 100" unfolding r_def using q1 by simp
  have "np_div (of_nat T - of_nat M) (of_nat T) = Fin q"
    using T by (simp add: np_div_def q_def)
  then have "completeness_score (fst (completeness_of cfg d recs)) = Fin (py_round r 2)"
    unfolding completeness_score_eq T_def[symmetric] M_def[symmetric]
    by (simp add: r_def)
  with py_round_percent[OF r0 r1] show ?thesis by blast
qed

lemma count_true_le: "count_true m \<le> length m"
  by (simp add: count_true_def)

lemma uniqueness_good:
  assumes "uniqueness_of d recs = (Inr u, recs')"
  shows "n_rows d \<noteq> 0" and "cols d \<noteq> []"
    and "cp_percentage (exact_duplicates (duplicate_records u))
           = py_round (of_nat (count_true (duplicated (rows_of d))) / of_nat (n_rows d) * 100) 2"
proof -
  show n: "n_rows d \<noteq> 0"
    using assms by (auto simp: uniqueness_of_def py_div_def Let_def split: if_splits)
  have "\<exists>k. subset_rows d [''patient_id'', ''date''] = Inr k"
    using assms n
    by (auto simp: uniqueness_of_def py_div_def Let_def split: sum.splits)
  then have "''patient_id'' \<in> set (columns d)"
    by (auto simp: subset_rows_def split: if_splits)
  then show "cols d \<noteq> []" by (auto simp: columns_def)
  show "cp_percentage (exact_duplicates (duplicate_records u))
           = py_round (of_nat (count_true (duplicated (rows_of d))) / of_nat (n_rows d) * 100) 2"
    using assms n
    by (auto simp: uniqueness_of_def py_div_def Let_def split: sum.splits)
qed


lemma duplicate_percentage_bounds:
  assumes "n_rows d \<noteq> 0"
  shows "0 \<le> py_round (of_nat (count_true (duplicated (rows_of d))) / of_nat (n_rows d) * 100) 2"
    and "py_round (of_nat (count_true (duplicated (rows_of d))) / of_nat (n_rows d) * 100) 2 \<le> 100"
proof -
  define k where "k = count_true (duplicated (rows_of d))"
  define q where "q = (of_nat k / of_nat (n_rows d) :: rat)"
  have "k \<le> length (duplicated (rows_of d))" unfolding k_def by (rule count_true_le)
  then have kn: "k \<le> n_rows d" by (simp add: duplicated_def rows_of_def)
  have n: "(0::rat) < of_nat (n_rows d)" using assms by simp
  have kr: "(of_nat k :: rat) \<le> of_nat (n_rows d)" using kn by simp
  have q0: "0 \<le> q" unfolding q_def by simp
  have q1: "q \<le> 1" unfolding q_def using n kr by simp
  have r0: "0 \<le> q * 100" using q0 by simp
  have r1: "q * 100 \<le> 100" using q1 by simp
  from py_round_percent[OF r0 r1]
  show "0 \<le> py_round (of_nat (count_true (duplicated (rows_of d))) / of_nat (n_rows d) * 100) 2"
    and "py_round (of_nat (count_true (duplicated (rows_of d))) / of_nat (n_rows d) * 100) 2 \<le> 100"
    unfolding q_def k_def by simp_all
qed

lemma overall_of_None:
  assumes "overall_of s v = (None, s', v')"
    and "completeness (validation_results v) = Some c"
    and "uniqueness (validation_results v) = Some u"
  obtains va co ac where
    "calculate_validity_score s v = Inr va"
    "calculate_consistency_score s v = Inr co"
    "calculate_accuracy_score s v = Inr ac"
    "overall (validation_results v') =
       Some \<lparr>quality_score =
               round_f (mean_of_scores
                 \<lparr>s_completeness = completeness_score c,
                  s_uniqueness = Fin (100 - cp_percentage (exact_duplicates (duplicate_records u))),
                  s_validity = Fin va, s_consistency = Fin co, s_accuracy = Fin ac\<rparr>) 2,
             dimension_scores =
               \<lparr>s_completeness = completeness_score c,
                s_uniqueness = Fin (100 - cp_percentage (exact_duplicates (duplicate_records u))),
                s_validity = Fin va, s_consistency = Fin co, s_accuracy = Fin ac\<rparr>,
             total_recommendations = length (recommendations v),
             critical_issues = length (filter (\<lambda>r. severity r = HIGH) (recommendations v))\<rparr>"
    "recommendations v' = recommendations v"
  using assms
  by (auto simp: overall_of_def Let_def split: sum.splits)

text \<open>
  Claim C5. Whenever \<^verbatim>\<open>run_all_validations\<close> returns, on a validator whose frame is a data
  frame (distinct column names, every column as long as the index), the overall result
  holds exactly the five dimension scores, each a number in \<open>[0, 100]\<close>, and
  \<^verbatim>\<open>quality_score\<close> is their unweighted mean rounded to 2 decimals.
\<close>

theorem quality_score_is_mean:
  assumes "wf_df (frames s (df v))"
    and "run_all_validations ev s v = (None, s', v')"
  shows "\<exists>ov c u va co ac.
           overall (validation_results v') = Some ov \<and>
           dimension_scores ov =
             \<lparr>s_completeness = Fin c, s_uniqueness = Fin u, s_validity = Fin va,
              s_consistency = Fin co, s_accuracy = Fin ac\<rparr> \<and>
           0 \<le> c \<and> c \<le> 100 \<and> 0 \<le> u \<and> u \<le> 100 \<and> 0 \<le> va \<and> va \<le> 100 \<and>
           0 \<le> co \<and> co \<le> 100 \<and> 0 \<le> ac \<and> ac \<le> 100 \<and>
           quality_score ov = Fin (py_round ((c + u + va + co + ac) / 5) 2)"
proof -
  define d where "d = frames s (df v)"
  from assms(2) obtain c r1 u r2 va r3 co d1 r4 ac r5 where
    c: "completeness_of (config v) d (recommendations v) = (c, r1)" and
    u: "uniqueness_of d r1 = (Inr u, r2)" and
    o: "overall_of (s\<lparr>frames := (frames s)(df v := d1)\<rparr>)
       (v\<lparr>recommendations := r5,
          validation_results := (validation_results v)
            \<lparr>completeness := Some c, uniqueness := Some u, validity := Some va,
             consistency := Some co, accuracy := Some ac\<rparr>\<rparr>) = (None, s', v')"
    unfolding d_def by (rule run_returns)
  note ug = uniqueness_good[OF u]
  from completeness_good[OF assms(1)[folded d_def] ug(1) ug(2), of "config v" "recommendations v"] c
  obtain x where x: "completeness_score c = Fin x" "0 \<le> x" "x \<le> 100" by auto
  define p where "p = cp_percentage (exact_duplicates (duplicate_records u))"
  have p: "0 \<le> p" "p \<le> 100"
    unfolding p_def ug(3) by (rule duplicate_percentage_bounds[OF ug(1)])+
  define s5 where "s5 = s\<lparr>frames := (frames s)(df v := d1)\<rparr>"
  define v5 where "v5 = v\<lparr>recommendations := r5,
          validation_results := (validation_results v)
            \<lparr>completeness := Some c, uniqueness := Some u, validity := Some va,
             consistency := Some co, accuracy := Some ac\<rparr>\<rparr>"
  have o5: "overall_of s5 v5 = (None, s', v')" using o by (simp add: s5_def v5_def)
  have c5: "completeness (validation_results v5) = Some c" by (simp add: v5_def)
  have u5: "uniqueness (validation_results v5) = Some u" by (simp add: v5_def)
  obtain sv sc sa where
    sv: "calculate_validity_score s5 v5 = Inr sv" and
    sc: "calculate_consistency_score s5 v5 = Inr sc" and
    sa: "calculate_accuracy_score s5 v5 = Inr sa" and
    ov0: "overall (validation_results v') =
       Some \<lparr>quality_score =
               round_f (mean_of_scores
                 \<lparr>s_completeness = completeness_score c,
                  s_uniqueness = Fin (100 - cp_percentage (exact_duplicates (duplicate_records u))),
                  s_validity = Fin sv, s_consistency = Fin sc, s_accuracy = Fin sa\<rparr>) 2,
             dimension_scores =
               \<lparr>s_completeness = completeness_score c,
                s_uniqueness = Fin (100 - cp_percentage (exact_duplicates (duplicate_records u))),
                s_validity = Fin sv, s_consistency = Fin sc, s_accuracy = Fin sa\<rparr>,
             total_recommendations = length (recommendations v5),
             critical_issues = length (filter (\<lambda>r. severity r = HIGH) (recommendations v5))\<rparr>"
    by (rule overall_of_None[OF o5 c5 u5])
  note ov = ov0[folded p_def, unfolded x(1)]
  note bv = calculate_validity_score_bounds[OF sv]
  note bc = calculate_consistency_score_bounds[OF sc]
  note ba = calculate_accuracy_score_bounds[OF sa]
  have m: "mean_of_scores
             \<lparr>s_completeness = Fin x, s_uniqueness = Fin (100 - p),
              s_validity = Fin sv, s_consistency = Fin sc, s_accuracy = Fin sa\<rparr>
           = Fin ((x + (100 - p) + sv + sc + sa) / 5)"
    by (simp add: mean_of_scores_def)
  show ?thesis
    apply (rule exI[of _ "the (overall (validation_results v'))"])
    apply (rule exI[of _ x], rule exI[of _ "100 - p"], rule exI[of _ sv], rule exI[of _ sc],
           rule exI[of _ sa])
    using x p bv bc ba by (simp add: ov m)
qed

lemma init_dated:
  "frames (fst dated_state) (df (snd dated_state)) = dated_frame"
  "config (snd dated_state) = default_config"
  "recommendations (snd dated_state) = []"
  "validation_results (snd dated_state) = no_results"
  by (simp_all add: dated_state_def init_def df_copy_def store_with_def Let_def)

lemma rows_of_dated: "rows_of dated_frame = [[NumV 1, NumV 500]]"
  by (simp add: rows_of_def dated_frame_def row_at_def)

lemma dated_run_returns:
  "fst (run_all_validations test_env (fst dated_state) (snd dated_state)) = None"
  by (simp add: run_all_validations_def and_then_def check_completeness_def
        check_uniqueness_def check_validity_def check_consistency_def check_accuracy_def
        overall_of_def init_dated completeness_of_def uniqueness_of_def validity_of_def
        consistency_of_def accuracy_of_def temporal_of_def logical_of_def cross_field_of_def
        date_format_of_def calculate_validity_score_def calculate_consistency_score_def
        calculate_accuracy_score_def rows_of_dated duplicated_def count_true_def py_div_def
        subset_rows_def columns_def getcol_def setcol_def row_at_def default_config_def
        no_results_def test_env_def to_datetime_coerce_def after_now_def isnull_def
        nunique_def dated_frame_def null_count_def Let_def split: prod.splits)


theorem quality_score_is_mean_witness:
  "wf_df (frames (fst dated_state) (df (snd dated_state))) \<and>
   fst (run_all_validations test_env (fst dated_state) (snd dated_state)) = None \<and>
   (\<exists>ov c u va co ac.
      overall (validation_results
        (snd (snd (run_all_validations test_env (fst dated_state) (snd dated_state))))) = Some ov \<and>
      dimension_scores ov =
        \<lparr>s_completeness = Fin c, s_uniqueness = Fin u, s_validity = Fin va,
         s_consistency = Fin co, s_accuracy = Fin ac\<rparr> \<and>
      0 \<le> c \<and> c \<le> 100 \<and> 0 \<le> u \<and> u \<le> 100 \<and> 0 \<le> va \<and> va \<le> 100 \<and>
      0 \<le> co \<and> co \<le> 100 \<and> 0 \<le> ac \<and> ac \<le> 100 \<and>
      quality_score ov = Fin (py_round ((c + u + va + co + ac) / 5) 2))"
proof -
  let ?r = "run_all_validations test_env (fst dated_state) (snd dated_state)"
  have h1: "wf_df (frames (fst dated_state) (df (snd dated_state)))"
    by (simp add: init_dated wf_df_def dated_frame_def)
  have h2: "?r = (None, fst (snd ?r), snd (snd ?r))"
    using dated_run_returns by (simp add: prod_eq_iff)
  from quality_score_is_mean[OF h1 h2] h1 dated_run_returns show ?thesis by blast
qed

subsection \<open>The denominator of each percentage\<close>

lemma set_update_subset: "set (AList.update k v al) \<subseteq> insert (k, v) (set al)"
  by (induction al) auto

lemma update_all:
  assumes "\<forall>e \<in> set al. P (snd e)" and "P v"
  shows "\<forall>e \<in> set (AList.update k v al). P (snd e)"
  using assms set_update_subset[of k v al] by fastforce

lemma missing_by_column_loop_pct:
  assumes "n \<noteq> 0"
    and "\<forall>e \<in> set mbc. mc_percentage (snd e) = Fin (percent_of (mc_count (snd e)) n)"
  shows "\<forall>e \<in> set (fst (missing_by_column_loop cfg n cs (mbc, recs))).
           mc_percentage (snd e) = Fin (percent_of (mc_count (snd e)) n)"
  using assms(2)
proof (induction cs arbitrary: mbc recs)
  case Nil
  then show ?case by simp
next
  case (Cons p cs)
  obtain col vs where p: "p = (col, vs)" by (cases p)
  let ?mc = "\<lparr>mc_count = null_count vs,
              mc_percentage = round_f (mul_f (np_div (of_nat (null_count vs)) (of_nat n)) 100) 2,
              is_critical = (col \<in> set (critical_columns cfg))\<rparr>"
  have "mc_percentage ?mc = Fin (percent_of (mc_count ?mc) n)"
    using assms(1) by (simp add: np_div_def percent_of_def)
  with Cons.prems have "\<forall>e \<in> set (AList.update col ?mc mbc).
      mc_percentage (snd e) = Fin (percent_of (mc_count (snd e)) n)"
    by (rule update_all)
  from Cons.IH[OF this] show ?case by (simp add: p Let_def)
qed

lemma completeness_pct:
  assumes "n_rows d \<noteq> 0" and "completeness_of cfg d recs = (c, recs')"
  shows "(\<forall>e \<in> set (missing_by_column c).
            mc_percentage (snd e) = Fin (percent_of (mc_count (snd e)) (n_rows d))) \<and>
         mr_percentage (missing_by_record c)
           = Fin (percent_of (records_with_missing (missing_by_record c)) (n_rows d))"
proof -
  have m: "missing_by_column c = fst (missing_by_column_loop cfg (n_rows d) (cols d) ([], recs))"
    using assms(2) by (auto simp: completeness_of_def Let_def split: prod.splits)
  have "\<forall>e \<in> set (missing_by_column c).
            mc_percentage (snd e) = Fin (percent_of (mc_count (snd e)) (n_rows d))"
    unfolding m by (rule missing_by_column_loop_pct[OF assms(1)]) simp
  moreover have "mr_percentage (missing_by_record c)
           = Fin (percent_of (records_with_missing (missing_by_record c)) (n_rows d))"
    using assms by (auto simp: completeness_of_def Let_def np_div_def percent_of_def split: prod.splits)
  ultimately show ?thesis by blast
qed

lemma uniqueness_pct:
  assumes "uniqueness_of d recs = (Inr u, recs')"
  shows "cp_percentage (exact_duplicates (duplicate_records u))
           = percent_of (cp_count (exact_duplicates (duplicate_records u))) (n_rows d) \<and>
         cp_percentage (id_date_duplicates (duplicate_records u))
           = percent_of (cp_count (id_date_duplicates (duplicate_records u))) (n_rows d)"
  using assms
  by (auto simp: uniqueness_of_def py_div_def Let_def percent_of_def split: sum.splits if_splits)

lemma range_loop_pct:
  assumes "range_loop d rs (rv, recs) = (Inr rv', recs')"
    and "\<forall>e \<in> set rv. rv_percentage (snd e) = percent_of (rv_violations (snd e)) (n_rows d)"
  shows "\<forall>e \<in> set rv'. rv_percentage (snd e) = percent_of (rv_violations (snd e)) (n_rows d)"
  using assms
proof (induction rs arbitrary: rv recs)
  case Nil
  then show ?case by simp
next
  case (Cons r rs)
  obtain col lo hi where r: "r = (col, lo, hi)" by (cases r)
  show ?case
  proof (cases "getcol d col")
    case None
    with Cons.prems(1) have "range_loop d rs (rv, recs) = (Inr rv', recs')" by (simp add: r)
    from Cons.IH[OF this Cons.prems(2)] show ?thesis .
  next
    case (Some vs)
    from Cons.prems(1) Some obtain m where m: "out_of_range_mask vs lo hi = Inr m"
      by (cases "out_of_range_mask vs lo hi") (simp_all add: r)
    from Cons.prems(1) Some m have n: "n_rows d \<noteq> 0"
      by (auto simp: r py_div_def Let_def split: if_splits)
    let ?ri = "\<lparr>expected_range = (lo, hi), rv_violations = count_true m,
               rv_percentage = py_round (of_nat (count_true m) / of_nat (n_rows d) * 100) 2\<rparr>"
    let ?recs = "if 0 < count_true m
                 then recs @ [\<lparr>severity = MEDIUM, category = ''Validity'',
                                issue = OutOfRange (count_true m) col lo hi,
                                recommendation = CorrectOutOfRange col\<rparr>]
                 else recs"
    have step: "range_loop d rs (AList.update col ?ri rv, ?recs) = (Inr rv', recs')"
      using Cons.prems(1) Some m n by (simp add: r py_div_def Let_def)
    have "rv_percentage ?ri = percent_of (rv_violations ?ri) (n_rows d)"
      by (simp add: percent_of_def)
    with Cons.prems(2) have "\<forall>e \<in> set (AList.update col ?ri rv).
        rv_percentage (snd e) = percent_of (rv_violations (snd e)) (n_rows d)"
      by (rule update_all)
    from Cons.IH[OF step this] show ?thesis .
  qed
qed

lemma validity_pct:
  assumes "validity_of ev cfg d recs = (Inr va, recs')"
  shows "\<forall>e \<in> set (range_violations va).
           rv_percentage (snd e) = percent_of (rv_violations (snd e)) (n_rows d)"
proof -
  from assms obtain rv recs1 where
    rl: "range_loop d (expected_ranges cfg) ([], recs) = (Inr rv, recs1)"
    and va: "range_violations va = rv"
    by (auto simp: validity_of_def Let_def split: prod.splits sum.splits)
  from range_loop_pct[OF rl] show ?thesis unfolding va by simp
qed

lemma temporal_pct:
  assumes "temporal_of ev d recs = (Inr t, d1, recs')"
  shows "n_rows d1 = n_rows d"
    and "\<forall>fd. t = Some fd \<longrightarrow> cp_percentage fd = percent_of (cp_count fd) (n_rows d)"
  using assms
  by (auto simp: temporal_of_def Let_def py_div_def percent_of_def setcol_n_rows
           split: option.splits if_splits)

lemma logical_pct:
  assumes "logical_of d = Inr l"
  shows "\<forall>hs. l = Some hs \<longrightarrow> cp_percentage hs = percent_of (cp_count hs) (n_rows d)"
  using assms
  by (auto simp: logical_of_def Let_def py_div_def percent_of_def
           split: option.splits sum.splits if_splits)

lemma consistency_pct:
  assumes "consistency_of ev d recs = (Inr co, d1, recs')"
  shows "(\<forall>fd. temporal_consistency co = Some fd \<longrightarrow>
            cp_percentage fd = percent_of (cp_count fd) (n_rows d)) \<and>
         (\<forall>hs. logical_consistency co = Some hs \<longrightarrow>
            cp_percentage hs = percent_of (cp_count hs) (n_rows d))"
proof -
  from assms obtain t l recs1 where
    t: "temporal_of ev d recs = (Inr t, d1, recs1)" and l: "logical_of d1 = Inr l"
    and co: "temporal_consistency co = t" "logical_consistency co = l"
    by (auto simp: consistency_of_def split: prod.splits sum.splits)
  from temporal_pct[OF t] logical_pct[OF l] show ?thesis unfolding co by simp
qed

lemma accuracy_loop_pct:
  assumes "accuracy_loop ev d cs (ol, st, recs) = (Inr (ol', st'), recs')"
    and "\<forall>e \<in> set ol. \<exists>vs. getcol d (fst e) = Some vs \<and>
           o_percentage (snd e)
             = percent_of (o_count (snd e)) (length (filter (\<lambda>v. \<not> isnull v) vs))"
  shows "\<forall>e \<in> set ol'. \<exists>vs. getcol d (fst e) = Some vs \<and>
           o_percentage (snd e)
             = percent_of (o_count (snd e)) (length (filter (\<lambda>v. \<not> isnull v) vs))"
  using assms
proof (induction cs arbitrary: ol st recs)
  case Nil
  then show ?case by simp
next
  case (Cons col cs)
  show ?case
  proof (cases "getcol d col")
    case None
    with Cons.prems(1) have "accuracy_loop ev d cs (ol, st, recs) = (Inr (ol', st'), recs')"
      by simp
    from Cons.IH[OF this Cons.prems(2)] show ?thesis .
  next
    case (Some vs)
    show ?thesis
    proof (cases "\<exists>v \<in> set vs. \<not> isnull v")
      case False
      with Cons.prems(1) Some
      have "accuracy_loop ev d cs (ol, st, recs) = (Inr (ol', st'), recs')" by simp
      from Cons.IH[OF this Cons.prems(2)] show ?thesis .
    next
      case True
      from Cons.prems(1) Some True obtain xs where xs: "numeric_values vs = Inr xs"
        by (cases "numeric_values vs") simp_all
      define q1 where "q1 = quantile xs (1 / 4)"
      define q3 where "q3 = quantile xs (3 / 4)"
      define lower where "lower = q1 - (3 / 2) * (q3 - q1)"
      define upper where "upper = q3 + (3 / 2) * (q3 - q1)"
      from Cons.prems(1) Some True xs obtain m where m: "out_of_range_mask vs lower upper = Inr m"
        by (cases "out_of_range_mask vs lower upper")
           (simp_all add: Let_def q1_def q3_def lower_def upper_def)
      define nn where "nn = length (filter (\<lambda>v. \<not> isnull v) vs)"
      from Cons.prems(1) Some True xs m obtain q where
        q: "py_div (of_nat (count_true m)) (of_nat nn) = Inr q"
        by (cases "py_div (of_nat (count_true m)) (of_nat nn)")
           (simp_all add: Let_def q1_def q3_def lower_def upper_def nn_def)
      then have qv: "q = of_nat (count_true m) / of_nat nn"
        by (auto simp: py_div_def split: if_splits)
      define oi where "oi = \<lparr>o_count = count_true m, o_percentage = py_round (q * 100) 2,
                              lower_bound = py_round lower 2, upper_bound = py_round upper 2,
                              Q1 = py_round q1 2, Q3 = py_round q3 2,
                              IQR = py_round (q3 - q1) 2\<rparr>"
      from Cons.prems(1) Some True xs m q obtain st1 recs1 where
        step: "accuracy_loop ev d cs (AList.update col oi ol, st1, recs1) = (Inr (ol', st'), recs')"
        by (simp add: Let_def q1_def q3_def lower_def upper_def nn_def oi_def)
      have "\<forall>e \<in> set (AList.update col oi ol). \<exists>vs. getcol d (fst e) = Some vs \<and>
           o_percentage (snd e)
             = percent_of (o_count (snd e)) (length (filter (\<lambda>v. \<not> isnull v) vs))"
      proof
        fix e assume "e \<in> set (AList.update col oi ol)"
        with set_update_subset[of col oi ol] have "e = (col, oi) \<or> e \<in> set ol" by blast
        then show "\<exists>vs. getcol d (fst e) = Some vs \<and>
           o_percentage (snd e)
             = percent_of (o_count (snd e)) (length (filter (\<lambda>v. \<not> isnull v) vs))"
        proof
          assume "e = (col, oi)"
          then show ?thesis using Some
            by (simp add: oi_def qv nn_def percent_of_def)
        next
          assume "e \<in> set ol"
          with Cons.prems(2) show ?thesis by blast
        qed
      qed
      from Cons.IH[OF step this] show ?thesis .
    qed
  qed
qed

lemma accuracy_pct:
  assumes "accuracy_of ev cfg d recs = (Inr ac, recs')"
  shows "\<forall>e \<in> set (outliers ac). \<exists>vs. getcol d (fst e) = Some vs \<and>
           o_percentage (snd e)
             = percent_of (o_count (snd e)) (length (filter (\<lambda>v. \<not> isnull v) vs))"
proof -
  from assms obtain ol st where
    al: "accuracy_loop ev d (numeric_columns cfg) ([], [], recs) = (Inr (ol, st), recs')"
    and ac: "outliers ac = ol"
    by (auto simp: accuracy_of_def split: prod.splits sum.splits)
  from accuracy_loop_pct[OF al] show ?thesis unfolding ac by simp
qed

lemma overall_of_keeps:
  "completeness (validation_results (snd (snd (overall_of s v)))) = completeness (validation_results v)"
  "uniqueness (validation_results (snd (snd (overall_of s v)))) = uniqueness (validation_results v)"
  "validity (validation_results (snd (snd (overall_of s v)))) = validity (validation_results v)"
  "consistency (validation_results (snd (snd (overall_of s v)))) = consistency (validation_results v)"
  "accuracy (validation_results (snd (snd (overall_of s v)))) = accuracy (validation_results v)"
  by (auto simp: overall_of_def Let_def split: option.splits sum.splits)

text \<open>
  Claim C6. In the results of a run that returns, every percentage of the completeness,
  uniqueness, validity and consistency results is its count over the number of records
  of the data set, times 100, rounded to 2 decimals; the outlier percentage of a column in
  the accuracy result is its count over the number of non-null values of that column.
\<close>

theorem percentage_denominators:
  assumes "run_all_validations ev s v = (None, s', v')"
  shows "\<exists>c u va co ac.
     completeness (validation_results v') = Some c \<and>
     uniqueness (validation_results v') = Some u \<and>
     validity (validation_results v') = Some va \<and>
     consistency (validation_results v') = Some co \<and>
     accuracy (validation_results v') = Some ac \<and>
     (\<forall>e \<in> set (missing_by_column c).
        mc_percentage (snd e) = Fin (percent_of (mc_count (snd e)) (n_rows (frames s (df v))))) \<and>
     mr_percentage (missing_by_record c)
       = Fin (percent_of (records_with_missing (missing_by_record c)) (n_rows (frames s (df v)))) \<and>
     cp_percentage (exact_duplicates (duplicate_records u))
       = percent_of (cp_count (exact_duplicates (duplicate_records u))) (n_rows (frames s (df v))) \<and>
     cp_percentage (id_date_duplicates (duplicate_records u))
       = percent_of (cp_count (id_date_duplicates (duplicate_records u)))
           (n_rows (frames s (df v))) \<and>
     (\<forall>e \<in> set (range_violations va).
        rv_percentage (snd e) = percent_of (rv_violations (snd e)) (n_rows (frames s (df v)))) \<and>
     (\<forall>fd. temporal_consistency co = Some fd \<longrightarrow>
        cp_percentage fd = percent_of (cp_count fd) (n_rows (frames s (df v)))) \<and>
     (\<forall>hs. logical_consistency co = Some hs \<longrightarrow>
        cp_percentage hs = percent_of (cp_count hs) (n_rows (frames s (df v)))) \<and>
     (\<forall>e \<in> set (outliers ac). \<exists>vs. getcol (frames s' (df v')) (fst e) = Some vs \<and>
        o_percentage (snd e)
          = percent_of (o_count (snd e)) (length (filter (\<lambda>v. \<not> isnull v) vs)))"
proof -
  define d where "d = frames s (df v)"
  from assms obtain c r1 u r2 va r3 co d1 r4 ac r5 where
    c: "completeness_of (config v) d (recommendations v) = (c, r1)" and
    u: "uniqueness_of d r1 = (Inr u, r2)" and
    va: "validity_of ev (config v) d r2 = (Inr va, r3)" and
    co: "consistency_of ev d r3 = (Inr co, d1, r4)" and
    ac: "accuracy_of ev (config v) d1 r4 = (Inr ac, r5)" and
    o: "overall_of (s\<lparr>frames := (frames s)(df v := d1)\<rparr>)
       (v\<lparr>recommendations := r5,
          validation_results := (validation_results v)
            \<lparr>completeness := Some c, uniqueness := Some u, validity := Some va,
             consistency := Some co, accuracy := Some ac\<rparr>\<rparr>) = (None, s', v')"
    unfolding d_def by (rule run_returns)
  define s5 where "s5 = s\<lparr>frames := (frames s)(df v := d1)\<rparr>"
  define v5 where "v5 = v\<lparr>recommendations := r5,
          validation_results := (validation_results v)
            \<lparr>completeness := Some c, uniqueness := Some u, validity := Some va,
             consistency := Some co, accuracy := Some ac\<rparr>\<rparr>"
  have o5: "overall_of s5 v5 = (None, s', v')" using o by (simp add: s5_def v5_def)
  have v': "v' = snd (snd (overall_of s5 v5))" and s': "s' = fst (snd (overall_of s5 v5))"
    by (simp_all add: o5)
  have f1: "completeness (validation_results v') = Some c"
    unfolding v' overall_of_keeps by (simp add: v5_def)
  have f2: "uniqueness (validation_results v') = Some u"
    unfolding v' overall_of_keeps by (simp add: v5_def)
  have f3: "validity (validation_results v') = Some va"
    unfolding v' overall_of_keeps by (simp add: v5_def)
  have f4: "consistency (validation_results v') = Some co"
    unfolding v' overall_of_keeps by (simp add: v5_def)
  have f5: "accuracy (validation_results v') = Some ac"
    unfolding v' overall_of_keeps by (simp add: v5_def)
  have fr: "frames s' (df v') = d1"
    unfolding v' s' overall_of_store overall_of_df by (simp add: s5_def v5_def)
  have n: "n_rows d \<noteq> 0" by (rule uniqueness_good(1)[OF u])
  note p1 = completeness_pct[OF n c]
  note p2 = uniqueness_pct[OF u]
  note p3 = validity_pct[OF va]
  note p4 = consistency_pct[OF co]
  note p5 = accuracy_pct[OF ac]
  show ?thesis
    unfolding d_def[symmetric] fr
    apply (rule exI[of _ c], rule exI[of _ u], rule exI[of _ va], rule exI[of _ co],
           rule exI[of _ ac])
    using f1 f2 f3 f4 f5 p1 p2 p3 p4 p5 by blast
qed

lemma init_scored:
  "frames (fst scored_state) (df (snd scored_state)) = scored_frame"
  "config (snd scored_state) = default_config"
  "recommendations (snd scored_state) = []"
  "validation_results (snd scored_state) = no_results"
  by (simp_all add: scored_state_def init_def df_copy_def store_with_def Let_def)

lemma rows_of_scored:
  "rows_of scored_frame =
     [[NumV 1, NumV 500, NumV 1], [NumV 2, NumV 500, NumV 1], [NumV 3, NumV 500, NumV 1],
      [NumV 4, NumV 500, NumV 1], [NumV 5, NumV 500, NumV 100], [NumV 6, NumV 2000, NullV]]"
  by (simp add: rows_of_def scored_frame_def row_at_def eval_nat_numeral)

lemma scored_completeness:
  "fst (check_completeness (fst scored_state) (snd scored_state)) = None"
  by (simp add: check_completeness_def Let_def split: prod.splits)

lemma scored_uniqueness:
  "\<exists>u r. uniqueness_of scored_frame recs = (Inr u, r)"
  by (simp add: uniqueness_of_def rows_of_scored duplicated_def count_true_def py_div_def
        subset_rows_def columns_def getcol_def row_at_def nunique_def Let_def isnull_def
        scored_frame_def eval_nat_numeral)


lemma scored_run_returns:
  "fst (run_all_validations test_env (fst scored_state) (snd scored_state)) = None"
  by (simp add: run_all_validations_def and_then_def check_completeness_def
        check_uniqueness_def check_validity_def check_consistency_def check_accuracy_def
        overall_of_def init_scored completeness_of_def uniqueness_of_def validity_of_def
        consistency_of_def accuracy_of_def temporal_of_def logical_of_def cross_field_of_def
        date_format_of_def calculate_validity_score_def calculate_consistency_score_def
        calculate_accuracy_score_def rows_of_scored duplicated_def count_true_def py_div_def
        subset_rows_def columns_def getcol_def setcol_def row_at_def default_config_def
        no_results_def test_env_def to_datetime_coerce_def after_now_def isnull_def
        nunique_def scored_frame_def null_count_def out_of_range_mask_def series_cmp_def
        numeric_values_def Let_def eval_nat_numeral split: prod.splits)


theorem percentage_denominators_witness:
  "fst (run_all_validations test_env (fst scored_state) (snd scored_state)) = None \<and>
   (\<exists>c u va co ac.
     completeness (validation_results
       (snd (snd (run_all_validations test_env (fst scored_state) (snd scored_state))))) = Some c \<and>
     uniqueness (validation_results
       (snd (snd (run_all_validations test_env (fst scored_state) (snd scored_state))))) = Some u \<and>
     validity (validation_results
       (snd (snd (run_all_validations test_env (fst scored_state) (snd scored_state))))) = Some va \<and>
     consistency (validation_results
       (snd (snd (run_all_validations test_env (fst scored_state) (snd scored_state))))) = Some co \<and>
     accuracy (validation_results
       (snd (snd (run_all_validations test_env (fst scored_state) (snd scored_state))))) = Some ac \<and>
     mr_percentage (missing_by_record c)
       = Fin (percent_of (records_with_missing (missing_by_record c)) 6) \<and>
     cp_percentage (exact_duplicates (duplicate_records u))
       = percent_of (cp_count (exact_duplicates (duplicate_records u))) 6 \<and>
     cp_percentage (id_date_duplicates (duplicate_records u))
       = percent_of (cp_count (id_date_duplicates (duplicate_records u))) 6)"
proof -
  let ?r = "run_all_validations test_env (fst scored_state) (snd scored_state)"
  have h: "?r = (None, fst (snd ?r), snd (snd ?r))"
    using scored_run_returns by (simp add: prod_eq_iff)
  have n: "n_rows (frames (fst scored_state) (df (snd scored_state))) = 6"
    by (simp add: init_scored scored_frame_def)
  from percentage_denominators[OF h] scored_run_returns show ?thesis
    unfolding n by blast
qed

subsection \<open>Running twice\<close>

lemma observe_check_completeness:
  assumes "observe (None, s, v) = observe (None, t, w)"
  shows "observe (check_completeness s v) = observe (check_completeness t w)"
  using assms by (simp add: observe_def check_completeness_def Let_def split: prod.splits)

lemma observe_check_uniqueness:
  assumes "observe (None, s, v) = observe (None, t, w)"
  shows "observe (check_uniqueness s v) = observe (check_uniqueness t w)"
  using assms by (simp add: observe_def check_uniqueness_def split: prod.splits sum.splits)

lemma observe_check_validity:
  assumes "observe (None, s, v) = observe (None, t, w)"
  shows "observe (check_validity ev s v) = observe (check_validity ev t w)"
  using assms by (simp add: observe_def check_validity_def split: prod.splits sum.splits)

lemma observe_check_consistency:
  assumes "observe (None, s, v) = observe (None, t, w)"
  shows "observe (check_consistency ev s v) = observe (check_consistency ev t w)"
  using assms
  by (simp add: observe_def check_consistency_def Let_def split: prod.splits sum.splits)

lemma observe_check_accuracy:
  assumes "observe (None, s, v) = observe (None, t, w)"
  shows "observe (check_accuracy ev s v) = observe (check_accuracy ev t w)"
  using assms by (simp add: observe_def check_accuracy_def split: prod.splits sum.splits)

lemma observe_overall_of:
  assumes "observe (None, s, v) = observe (None, t, w)"
  shows "observe (overall_of s v) = observe (overall_of t w)"
  using assms
  by (simp add: observe_def overall_of_def calculate_validity_score_def
        calculate_consistency_score_def calculate_accuracy_score_def Let_def
        split: prod.splits sum.splits option.splits)

lemma observe_and_then:
  assumes "observe r = observe r'"
    and "\<And>s v t w. observe (None, s, v) = observe (None, t, w) \<Longrightarrow> observe (f s v) = observe (f t w)"
  shows "observe (and_then r f) = observe (and_then r' f)"
proof -
  obtain e s v where r: "r = (e, s, v)" by (cases r)
  obtain e' t w where r': "r' = (e', t, w)" by (cases r')
  from assms(1) have e: "e' = e" by (simp add: r r' observe_def)
  show ?thesis
  proof (cases e)
    case None
    with assms(1) e have "observe (None, s, v) = observe (None, t, w)" by (simp add: r r')
    from assms(2)[OF this] show ?thesis by (simp add: r r' e None and_then_def)
  next
    case (Some x)
    with assms(1) e show ?thesis by (simp add: r r' and_then_def)
  qed
qed

lemma observe_run:
  assumes "observe (None, s, v) = observe (None, t, w)"
  shows "observe (run_all_validations ev s v) = observe (run_all_validations ev t w)"
  unfolding run_all_validations_def
  by (intro observe_and_then observe_check_completeness observe_check_uniqueness
        observe_check_validity observe_check_consistency observe_check_accuracy
        observe_overall_of assms)

lemma observe_init:
  "observe (None, fst (init s a cfg), snd (init s a cfg)) =
     (None, frames s a, (case cfg of None \<Rightarrow> default_config | Some c \<Rightarrow> c), no_results, [])"
  by (simp add: observe_def init_def df_copy_def Let_def)

text \<open>
  Claim C3, amended. Two runs, each on a validator freshly constructed from the same,
  unchanged caller's frame with the same configuration, and evaluated with the same clock
  and date parser, end alike: the same exception or none, the same result records for
  every dimension and the same recommendations. This holds although the second validator
  is built in the store the first run has left behind.
\<close>

theorem fresh_runs_agree:
  assumes "a < next_addr s"
  shows "observe (run_all_validations ev
            (fst (init (fst (snd (run_all_validations ev (fst (init s a cfg)) (snd (init s a cfg)))))
                   a cfg))
            (snd (init (fst (snd (run_all_validations ev (fst (init s a cfg)) (snd (init s a cfg)))))
                   a cfg)))
         = observe (run_all_validations ev (fst (init s a cfg)) (snd (init s a cfg)))"
proof -
  let ?s1 = "fst (snd (run_all_validations ev (fst (init s a cfg)) (snd (init s a cfg))))"
  have "frames ?s1 a = frames s a" by (rule allocated_frames_unchanged[OF assms])
  then have "observe (None, fst (init ?s1 a cfg), snd (init ?s1 a cfg))
           = observe (None, fst (init s a cfg), snd (init s a cfg))"
    unfolding observe_init by simp
  then show ?thesis by (rule observe_run)
qed

lemma checks_keep_completeness:
  "completeness (validation_results (snd (snd (check_uniqueness s v))))
     = completeness (validation_results v)"
  "completeness (validation_results (snd (snd (check_validity ev s v))))
     = completeness (validation_results v)"
  "completeness (validation_results (snd (snd (check_consistency ev s v))))
     = completeness (validation_results v)"
  "completeness (validation_results (snd (snd (check_accuracy ev s v))))
     = completeness (validation_results v)"
  by (auto simp: check_uniqueness_def check_validity_def check_consistency_def
        check_accuracy_def Let_def split: prod.splits sum.splits)

lemma and_then_keeps_completeness:
  assumes "\<And>s v. completeness (validation_results (snd (snd (f s v))))
                    = completeness (validation_results v)"
  shows "completeness (validation_results (snd (snd (and_then r f))))
           = completeness (validation_results (snd (snd r)))"
  using assms by (auto simp: and_then_def split: prod.splits option.splits)

lemma run_completeness:
  "completeness (validation_results (snd (snd (run_all_validations ev s v))))
     = Some (fst (completeness_of (config v) (frames s (df v)) (recommendations v)))"
proof -
  have "completeness (validation_results (snd (snd (check_completeness s v))))
     = Some (fst (completeness_of (config v) (frames s (df v)) (recommendations v)))"
    by (simp add: check_completeness_def Let_def split: prod.splits)
  then show ?thesis
    unfolding run_all_validations_def
    by (simp add: and_then_keeps_completeness checks_keep_completeness overall_of_keeps)
qed

lemma total_columns_completeness:
  "total_columns (fst (completeness_of cfg d recs)) = length (cols d)"
  by (simp add: completeness_of_def Let_def split: prod.splits)

lemma dated_run_frame:
  "cols (frames (fst (snd (run_all_validations test_env (fst dated_state) (snd dated_state))))
          (df (snd (snd (run_all_validations test_env (fst dated_state) (snd dated_state))))))
   = [(''patient_id'', [NumV 1]), (''date'', [NumV 500]), (''date_parsed'', [TimeV 500])]"
  by (simp add: run_all_validations_def and_then_def check_completeness_def
        check_uniqueness_def check_validity_def check_consistency_def check_accuracy_def
        overall_of_def init_dated completeness_of_def uniqueness_of_def validity_of_def
        consistency_of_def accuracy_of_def temporal_of_def logical_of_def cross_field_of_def
        date_format_of_def calculate_validity_score_def calculate_consistency_score_def
        calculate_accuracy_score_def rows_of_dated duplicated_def count_true_def py_div_def
        subset_rows_def columns_def getcol_def setcol_def row_at_def default_config_def
        no_results_def test_env_def to_datetime_coerce_def after_now_def isnull_def
        nunique_def dated_frame_def null_count_def Let_def split: prod.splits)

text \<open>
  Claim C3 says that running the validation twice on the same data set gives identical
  result records, with no state carried between runs. As stated it fails when the two runs
  are on the same validator: the first run leaves the column \<^verbatim>\<open>date_parsed\<close> in the
  validator's frame (and its recommendations in the list), so the second run counts three
  columns where the first counted two.
\<close>

theorem rerun_differs:
  "validation_results
     (snd (snd (run_all_validations test_env
        (fst (snd (run_all_validations test_env (fst dated_state) (snd dated_state))))
        (snd (snd (run_all_validations test_env (fst dated_state) (snd dated_state)))))))
   \<noteq> validation_results
        (snd (snd (run_all_validations test_env (fst dated_state) (snd dated_state))))"
proof
  let ?r1 = "run_all_validations test_env (fst dated_state) (snd dated_state)"
  let ?r2 = "run_all_validations test_env (fst (snd ?r1)) (snd (snd ?r1))"
  assume "validation_results (snd (snd ?r2)) = validation_results (snd (snd ?r1))"
  then have "completeness (validation_results (snd (snd ?r2)))
               = completeness (validation_results (snd (snd ?r1)))" by simp
  then have "total_columns (fst (completeness_of (config (snd (snd ?r1)))
                 (frames (fst (snd ?r1)) (df (snd (snd ?r1)))) (recommendations (snd (snd ?r1)))))
           = total_columns (fst (completeness_of (config (snd dated_state))
                 (frames (fst dated_state) (df (snd dated_state)))
                 (recommendations (snd dated_state))))"
    unfolding run_completeness by simp
  then show False
    unfolding total_columns_completeness dated_run_frame init_dated
    by (simp add: dated_frame_def)
qed

theorem fresh_runs_agree_witness:
  "(0::nat) < next_addr (store_with dated_frame) \<and>
   observe (run_all_validations test_env
      (fst (init (fst (snd (run_all_validations test_env (fst (init (store_with dated_frame) 0 None))
                              (snd (init (store_with dated_frame) 0 None)))))
             0 None))
      (snd (init (fst (snd (run_all_validations test_env (fst (init (store_with dated_frame) 0 None))
                              (snd (init (store_with dated_frame) 0 None)))))
             0 None)))
   = observe (run_all_validations test_env (fst (init (store_with dated_frame) 0 None))
                (snd (init (store_with dated_frame) 0 None)))"
proof -
  have h: "(0::nat) < next_addr (store_with dated_frame)" by (simp add: store_with_def)
  from fresh_runs_agree[OF h, of test_env None] h show ?thesis by blast
qed

subsection \<open>What the range check counts\<close>

lemma out_of_range_mask_map:
  assumes "out_of_range_mask vs lo hi = Inr m"
  shows "m = map (out_of_range lo hi) vs"
  using assms
  by (auto simp: out_of_range_mask_def series_cmp_def out_of_range_def zip_map_map
        zip_same_conv_map split: if_splits)

lemma range_loop_other:
  assumes "range_loop d rs (rv, recs) = (Inr rv', recs')" and "col \<notin> fst ` set rs"
  shows "map_of rv' col = map_of rv col"
  using assms
proof (induction rs arbitrary: rv recs)
  case Nil
  then show ?case by simp
next
  case (Cons r rs)
  obtain c lo hi where r: "r = (c, lo, hi)" by (cases r)
  from Cons.prems(2) have ne: "c \<noteq> col" and rest: "col \<notin> fst ` set rs" by (auto simp: r)
  show ?case
  proof (cases "getcol d c")
    case None
    with Cons.prems(1) have "range_loop d rs (rv, recs) = (Inr rv', recs')" by (simp add: r)
    from Cons.IH[OF this rest] show ?thesis .
  next
    case (Some vs)
    from Cons.prems(1) Some obtain m where m: "out_of_range_mask vs lo hi = Inr m"
      by (cases "out_of_range_mask vs lo hi") (simp_all add: r)
    from Cons.prems(1) Some m have n: "n_rows d \<noteq> 0"
      by (auto simp: r py_div_def Let_def split: if_splits)
    let ?ri = "\<lparr>expected_range = (lo, hi), rv_violations = count_true m,
               rv_percentage = py_round (of_nat (count_true m) / of_nat (n_rows d) * 100) 2\<rparr>"
    let ?recs = "if 0 < count_true m
                 then recs @ [\<lparr>severity = MEDIUM, category = ''Validity'',
                                issue = OutOfRange (count_true m) c lo hi,
                                recommendation = CorrectOutOfRange c\<rparr>]
                 else recs"
    have step: "range_loop d rs (AList.update c ?ri rv, ?recs) = (Inr rv', recs')"
      using Cons.prems(1) Some m n by (simp add: r py_div_def Let_def)
    from Cons.IH[OF step rest] ne show ?thesis by (simp add: update_conv')
  qed
qed

lemma range_loop_entry:
  assumes "range_loop d rs (rv, recs) = (Inr rv', recs')"
    and "distinct (map fst rs)" and "(col, lo, hi) \<in> set rs" and "getcol d col = Some vs"
  shows "\<exists>ri. map_of rv' col = Some ri \<and> expected_range ri = (lo, hi) \<and>
              rv_violations ri = length (filter (out_of_range lo hi) vs)"
  using assms(1,2,3)
proof (induction rs arbitrary: rv recs)
  case Nil
  then show ?case by simp
next
  case (Cons r rs)
  obtain c l h where r: "r = (c, l, h)" by (cases r)
  from Cons.prems(2) have cn: "c \<notin> fst ` set rs" and dist: "distinct (map fst rs)"
    by (simp_all add: r)
  show ?case
  proof (cases "(col, lo, hi) = r")
    case True
    then have eq: "c = col" "l = lo" "h = hi" by (simp_all add: r)
    from Cons.prems(1) assms(4) obtain m where m: "out_of_range_mask vs lo hi = Inr m"
      by (cases "out_of_range_mask vs lo hi") (simp_all add: r eq)
    from Cons.prems(1) assms(4) m have n: "n_rows d \<noteq> 0"
      by (auto simp: r eq py_div_def Let_def split: if_splits)
    let ?ri = "\<lparr>expected_range = (lo, hi), rv_violations = count_true m,
               rv_percentage = py_round (of_nat (count_true m) / of_nat (n_rows d) * 100) 2\<rparr>"
    let ?recs = "if 0 < count_true m
                 then recs @ [\<lparr>severity = MEDIUM, category = ''Validity'',
                                issue = OutOfRange (count_true m) col lo hi,
                                recommendation = CorrectOutOfRange col\<rparr>]
                 else recs"
    have step: "range_loop d rs (AList.update col ?ri rv, ?recs) = (Inr rv', recs')"
      using Cons.prems(1) assms(4) m n by (simp add: r eq py_div_def Let_def)
    from cn have "col \<notin> fst ` set rs" by (simp add: eq)
    from range_loop_other[OF step this]
    have "map_of rv' col = Some ?ri" by (simp add: update_conv')
    moreover have "count_true m = length (filter (out_of_range lo hi) vs)"
      unfolding out_of_range_mask_map[OF m] by (rule count_true_map)
    ultimately show ?thesis by simp
  next
    case False
    with Cons.prems(3) have mem: "(col, lo, hi) \<in> set rs" by simp
    show ?thesis
    proof (cases "getcol d c")
      case None
      with Cons.prems(1) have "range_loop d rs (rv, recs) = (Inr rv', recs')" by (simp add: r)
      from Cons.IH[OF this dist mem] show ?thesis .
    next
      case (Some ws)
      from Cons.prems(1) Some obtain m where m: "out_of_range_mask ws l h = Inr m"
        by (cases "out_of_range_mask ws l h") (simp_all add: r)
      from Cons.prems(1) Some m have n: "n_rows d \<noteq> 0"
        by (auto simp: r py_div_def Let_def split: if_splits)
      let ?ri = "\<lparr>expected_range = (l, h), rv_violations = count_true m,
                 rv_percentage = py_round (of_nat (count_true m) / of_nat (n_rows d) * 100) 2\<rparr>"
      let ?recs = "if 0 < count_true m
                   then recs @ [\<lparr>severity = MEDIUM, category = ''Validity'',
                                  issue = OutOfRange (count_true m) c l h,
                                  recommendation = CorrectOutOfRange c\<rparr>]
                   else recs"
      have step: "range_loop d rs (AList.update c ?ri rv, ?recs) = (Inr rv', recs')"
        using Cons.prems(1) Some m n by (simp add: r py_div_def Let_def)
      from Cons.IH[OF step dist mem] show ?thesis .
    qed
  qed
qed

lemma validity_range_entry:
  assumes "validity_of ev cfg d recs = (Inr va, recs')"
    and "distinct (map fst (expected_ranges cfg))"
    and "(col, lo, hi) \<in> set (expected_ranges cfg)" and "getcol d col = Some vs"
  shows "\<exists>ri. map_of (range_violations va) col = Some ri \<and> expected_range ri = (lo, hi) \<and>
              rv_violations ri = length (filter (out_of_range lo hi) vs)"
proof -
  from assms(1) obtain rv recs1 where
    rl: "range_loop d (expected_ranges cfg) ([], recs) = (Inr rv, recs1)"
    and va: "range_violations va = rv"
    by (auto simp: validity_of_def Let_def split: prod.splits sum.splits)
  from range_loop_entry[OF rl assms(2,3,4)] show ?thesis unfolding va .
qed

text \<open>
  Claim C7, amended. When \<^verbatim>\<open>check_validity\<close> returns, the violations it reports for a
  configured range \<open>(min, max)\<close> of a column are the records whose value is below \<open>min\<close> or
  above \<open>max\<close>. So for a range with \<open>min \<le> max\<close> a value exactly equal to \<open>min\<close> or to
  \<open>max\<close> is not counted, and for every range a value one unit below \<open>min\<close> or one unit
  above \<open>max\<close> is counted.
\<close>

theorem range_violations_counted:
  assumes "check_validity ev s v = (None, s', v')"
    and "distinct (map fst (expected_ranges (config v)))"
    and "(col, lo, hi) \<in> set (expected_ranges (config v))"
    and "getcol (frames s (df v)) col = Some vs"
  shows "\<exists>va ri. validity (validation_results v') = Some va \<and>
           map_of (range_violations va) col = Some ri \<and>
           rv_violations ri = length (filter (out_of_range lo hi) vs) \<and>
           (lo \<le> hi \<longrightarrow> \<not> out_of_range lo hi (NumV lo) \<and> \<not> out_of_range lo hi (NumV hi)) \<and>
           out_of_range lo hi (NumV (lo - 1)) \<and> out_of_range lo hi (NumV (hi + 1))"
proof -
  from assms(1) obtain va recs' where
    va: "validity_of ev (config v) (frames s (df v)) (recommendations v) = (Inr va, recs')"
    and v': "v' = v\<lparr>recommendations := recs',
                 validation_results := (validation_results v)\<lparr>validity := Some va\<rparr>\<rparr>"
    by (rule check_validity_None)
  from validity_range_entry[OF va assms(2,3,4)] obtain ri where
    ri: "map_of (range_violations va) col = Some ri"
        "rv_violations ri = length (filter (out_of_range lo hi) vs)"
    by blast
  have b: "(lo \<le> hi \<longrightarrow> \<not> out_of_range lo hi (NumV lo) \<and> \<not> out_of_range lo hi (NumV hi)) \<and>
           out_of_range lo hi (NumV (lo - 1)) \<and> out_of_range lo hi (NumV (hi + 1))"
    by (simp add: out_of_range_def)
  have "validity (validation_results v') = Some va" by (simp add: v')
  with ri b show ?thesis by blast
qed

lemma init_inverted:
  "frames (fst inverted_state) (df (snd inverted_state)) =
     \<lparr>n_rows = 1, cols = [(''patient_id'', [NumV 1]), (''date'', [NumV 500]),
                           (''patient_age'', [NumV 10])]\<rparr>"
  "config (snd inverted_state) = inverted_config"
  "recommendations (snd inverted_state) = []"
  "validation_results (snd inverted_state) = no_results"
  by (simp_all add: inverted_state_def init_def df_copy_def store_with_def Let_def)

lemma py_round_100: "py_round 100 2 = 100"
  by (simp add: py_round_def round_half_even_def)

text \<open>
  Claim C7 speaks of every configured range. The configuration is taken as it is given,
  so a range may have \<open>min > max\<close>; then a value exactly equal to \<open>min\<close> lies above \<open>max\<close>
  and is counted as a violation: with the range \<open>(10, 5)\<close> the one record of age 10 is
  reported.
\<close>

theorem inverted_range_counts_bound:
  "validity (validation_results
      (snd (snd (check_validity test_env (fst inverted_state) (snd inverted_state)))))
   = Some \<lparr>range_violations =
             [(''patient_age'',
               \<lparr>expected_range = (10, 5), rv_violations = 1, rv_percentage = 100\<rparr>)],
           value_violations = [],
           format_violations = [(''date'', FormatValid)]\<rparr>"
  by (simp add: check_validity_def validity_of_def init_inverted inverted_config_def
        default_config_def getcol_def out_of_range_mask_def series_cmp_def count_true_def
        py_div_def date_format_of_def test_env_def isnull_def no_results_def py_round_100
        Let_def)


lemma init_bounds:
  "frames (fst bounds_state) (df (snd bounds_state)) = bounds_frame"
  "config (snd bounds_state) = default_config"
  "recommendations (snd bounds_state) = []"
  "validation_results (snd bounds_state) = no_results"
  by (simp_all add: bounds_state_def init_def df_copy_def store_with_def Let_def)

lemma bounds_validity_returns:
  "fst (check_validity test_env (fst bounds_state) (snd bounds_state)) = None"
  by (simp add: check_validity_def validity_of_def init_bounds default_config_def getcol_def
        bounds_frame_def out_of_range_mask_def series_cmp_def count_true_def py_div_def
        date_format_of_def test_env_def isnull_def Let_def split: prod.splits)

theorem range_violations_counted_witness:
  "fst (check_validity test_env (fst bounds_state) (snd bounds_state)) = None \<and>
   distinct (map fst (expected_ranges (config (snd bounds_state)))) \<and>
   (''patient_age'', 0, 120) \<in> set (expected_ranges (config (snd bounds_state))) \<and>
   getcol (frames (fst bounds_state) (df (snd bounds_state))) ''patient_age''
     = Some [NumV 0, NumV 120, NumV (- 1), NumV 121, NullV] \<and>
   (\<exists>va ri. validity (validation_results
                (snd (snd (check_validity test_env (fst bounds_state) (snd bounds_state)))))
              = Some va \<and>
            map_of (range_violations va) ''patient_age'' = Some ri \<and>
            rv_violations ri = 2)"
proof -
  let ?r = "check_validity test_env (fst bounds_state) (snd bounds_state)"
  have h1: "?r = (None, fst (snd ?r), snd (snd ?r))"
    using bounds_validity_returns by (simp add: prod_eq_iff)
  have h2: "distinct (map fst (expected_ranges (config (snd bounds_state))))"
    by (simp add: init_bounds default_config_def)
  have h3: "(''patient_age'', 0, 120) \<in> set (expected_ranges (config (snd bounds_state)))"
    by (simp add: init_bounds default_config_def)
  have h4: "getcol (frames (fst bounds_state) (df (snd bounds_state))) ''patient_age''
              = Some [NumV 0, NumV 120, NumV (- 1), NumV 121, NullV]"
    by (simp add: init_bounds getcol_def bounds_frame_def)
  have c: "length (filter (out_of_range 0 120) [NumV 0, NumV 120, NumV (- 1), NumV 121, NullV])
             = 2"
    by (simp add: out_of_range_def)
  from range_violations_counted[OF h1 h2 h3 h4] bounds_validity_returns h2 h3 h4
  show ?thesis unfolding c by blast
qed

end
